theory Spec2Isabelle
  imports Complex_Main "HOL-Library.Option_ord" "HOL-Library.Log_Nat"
begin

section \<open>JavaScript values used by the utilities\<close>

text \<open>
  A JavaScript \<open>number\<close> is an IEEE 754 double. It is modelled by the rational it
  denotes, or \<open>NaN\<close>. Every arithmetic operation computes the exact result and rounds
  it to the nearest double, ties to the even significand (\<open>to_double\<close>). Every
  comparison with \<open>NaN\<close> is false and every arithmetic operation on \<open>NaN\<close> yields
  \<open>NaN\<close>, as in the language. The two infinities and the sign of zero are outside
  this model: a result of magnitude \<open>2^1024\<close> or more is rounded like any other.
\<close>

text \<open>\<open>ilog2 a\<close> is the integer \<open>n\<close> with \<open>2^n \<le> a < 2^(n+1)\<close>, for positive \<open>a\<close>.\<close>

definition ilog2 :: "rat \<Rightarrow> int" where
  "ilog2 a =
     (let (p, q) = quotient_of a; d = bitlen p - bitlen q
      in if 2 powi d \<le> a then d else d - 1)"

definition round_half_even :: "rat \<Rightarrow> int" where
  "round_half_even m =
     (let f = \<lfloor>m\<rfloor>; r = m - of_int f
      in if r < 1 / 2 then f else if 1 / 2 < r then f + 1 else if even f then f else f + 1)"

text \<open>The exponent of the last place of the double nearest to \<open>x\<close>: 53 significant bits,
  and no place below \<open>2^-1074\<close> (subnormal numbers).\<close>

definition double_exponent :: "rat \<Rightarrow> int" where
  "double_exponent x = max (ilog2 \<bar>x\<bar> - 52) (- 1074)"

definition to_double :: "rat \<Rightarrow> rat" where
  "to_double x =
     (if x = 0 then 0
      else of_int (round_half_even (x / 2 powi double_exponent x)) * 2 powi double_exponent x)"

datatype number = Num rat | NaN

fun js_gt :: "number \<Rightarrow> number \<Rightarrow> bool" where
  "js_gt (Num a) (Num b) = (b < a)"
| "js_gt _ _ = False"

fun js_le :: "number \<Rightarrow> number \<Rightarrow> bool" where
  "js_le (Num a) (Num b) = (a \<le> b)"
| "js_le _ _ = False"

fun js_add :: "number \<Rightarrow> number \<Rightarrow> number" where
  "js_add (Num a) (Num b) = Num (to_double (a + b))"
| "js_add _ _ = NaN"

fun js_sub :: "number \<Rightarrow> number \<Rightarrow> number" where
  "js_sub (Num a) (Num b) = Num (to_double (a - b))"
| "js_sub _ _ = NaN"

fun js_mul :: "number \<Rightarrow> number \<Rightarrow> number" where
  "js_mul (Num a) (Num b) = Num (to_double (a * b))"
| "js_mul _ _ = NaN"

text \<open>The source divides by the non-zero literals \<open>1e9\<close> and \<open>1000\<close> only; a zero
  divisor (an infinity or \<open>NaN\<close> in the language) is folded into \<open>NaN\<close> here.\<close>

fun js_div :: "number \<Rightarrow> number \<Rightarrow> number" where
  "js_div (Num a) (Num b) = (if b = 0 then NaN else Num (to_double (a / b)))"
| "js_div _ _ = NaN"

fun Math_floor :: "number \<Rightarrow> number" where
  "Math_floor (Num a) = Num (of_int \<lfloor>a\<rfloor>)"
| "Math_floor NaN = NaN"

text \<open>
  A \<open>Date\<close> holds a time value: a whole number of milliseconds since the Unix epoch, or
  is invalid. The constructor applies the language's \<open>TimeClip\<close>: a value beyond
  \<open>8.64e15\<close> in magnitude (or \<open>NaN\<close>) gives an invalid date, any other value is
  truncated towards zero.
\<close>

datatype date = Date int | InvalidDate

definition truncate_towards_zero :: "rat \<Rightarrow> int" where
  "truncate_towards_zero v = (if 0 \<le> v then \<lfloor>v\<rfloor> else \<lceil>v\<rceil>)"

fun newDate :: "number \<Rightarrow> date" where
  "newDate (Num v) =
     (if \<bar>v\<bar> > 8640000000000000 then InvalidDate else Date (truncate_towards_zero v))"
| "newDate NaN = InvalidDate"

fun getTime :: "date \<Rightarrow> number" where
  "getTime (Date ms) = Num (of_int ms)"
| "getTime InvalidDate = NaN"

section \<open>utils.ts: timestamps\<close>

definition COCOA_EPOCH_DIFF :: number where
  "COCOA_EPOCH_DIFF = Num 978307200"

definition cocoaTimestampToDate :: "number \<Rightarrow> date" where
  "cocoaTimestampToDate timestamp =
     (let timestamp' = (if js_gt timestamp (Num 1000000000000)
                        then js_div timestamp (Num 1000000000) else timestamp)
      in newDate (js_mul (js_add timestamp' COCOA_EPOCH_DIFF) (Num 1000)))"

definition dateToCocoaTimestamp :: "date \<Rightarrow> number" where
  "dateToCocoaTimestamp d =
     (let unixSeconds = js_div (getTime d) (Num 1000)
      in js_mul (js_sub unixSeconds COCOA_EPOCH_DIFF) (Num 1000000000))"

text \<open>\<open>Date.now()\<close> reads the clock; the reading, a whole number of milliseconds, is
  the first argument of the two functions that call it.\<close>

definition hoursAgoToCocoaTimestamp :: "int \<Rightarrow> number \<Rightarrow> number" where
  "hoursAgoToCocoaTimestamp now hours =
     (let cutoffTime = js_sub (Num (of_int now))
                         (js_mul (js_mul (js_mul hours (Num 60)) (Num 60)) (Num 1000))
      in js_mul (js_sub (js_div cutoffTime (Num 1000)) COCOA_EPOCH_DIFF) (Num 1000000000))"

definition daysAgoToCocoaTimestamp :: "int \<Rightarrow> number \<Rightarrow> number" where
  "daysAgoToCocoaTimestamp now days =
     (let cutoffTime = js_sub (Num (of_int now))
                         (js_mul (js_mul (js_mul (js_mul days (Num 24)) (Num 60)) (Num 60))
                            (Num 1000))
      in js_mul (js_sub (js_div cutoffTime (Num 1000)) COCOA_EPOCH_DIFF) (Num 1000000000))"

text \<open>
  The composition the specification compares the two convenience functions with:
  \<open>dateToCocoaTimestamp\<close> applied to the date built from the current time minus the
  duration (\<open>new Date(Date.now() - hours * 60 * 60 * 1000)\<close>).
\<close>

definition fromWallClock_now_minus_hours :: "int \<Rightarrow> number \<Rightarrow> number" where
  "fromWallClock_now_minus_hours now hours =
     dateToCocoaTimestamp (newDate (js_sub (Num (of_int now))
        (js_mul (js_mul (js_mul hours (Num 60)) (Num 60)) (Num 1000))))"

definition fromWallClock_now_minus_days :: "int \<Rightarrow> number \<Rightarrow> number" where
  "fromWallClock_now_minus_days now days =
     dateToCocoaTimestamp (newDate (js_sub (Num (of_int now))
        (js_mul (js_mul (js_mul (js_mul days (Num 24)) (Num 60)) (Num 60)) (Num 1000))))"

section \<open>utils.ts: parameter normalisation\<close>

text \<open>
  The parameter is typed \<open>number | undefined\<close> and compared with both \<open>undefined\<close> and
  \<open>null\<close>. None of the three functions has a \<open>throw\<close>, and comparison and
  \<open>Math.floor\<close> do not raise on numbers: the result type carries no error.
\<close>

datatype optional_number = Undefined | Null | Given number

definition normalizeLimit :: "optional_number \<Rightarrow> number \<Rightarrow> number \<Rightarrow> number" where
  "normalizeLimit limit defaultLimit maxLimit =
     (case limit of
        Undefined \<Rightarrow> defaultLimit
      | Null \<Rightarrow> defaultLimit
      | Given l \<Rightarrow>
          if js_le l (Num 0) then defaultLimit
          else if js_gt l maxLimit then maxLimit
          else Math_floor l)"

definition normalizeHours :: "optional_number \<Rightarrow> number \<Rightarrow> number \<Rightarrow> number" where
  "normalizeHours hours defaultHours maxHours =
     (case hours of
        Undefined \<Rightarrow> defaultHours
      | Null \<Rightarrow> defaultHours
      | Given h \<Rightarrow>
          if js_le h (Num 0) then defaultHours
          else if js_gt h maxHours then maxHours
          else h)"

definition normalizeDays :: "optional_number \<Rightarrow> number \<Rightarrow> number \<Rightarrow> number" where
  "normalizeDays days defaultDays maxDays =
     (case days of
        Undefined \<Rightarrow> defaultDays
      | Null \<Rightarrow> defaultDays
      | Given d \<Rightarrow>
          if js_le d (Num 0) then defaultDays
          else if js_gt d maxDays then maxDays
          else d)"

section \<open>utils.ts: contact normalisation\<close>

text \<open>
  \<open>phone.replace(/[^\d+]/g, "")\<close> keeps the ASCII digits and every \<open>+\<close>, wherever it
  stands. A string is a list of 8-bit characters; the kept characters are ASCII, so
  the length of the cleaned string is the one the source counts.
\<close>

definition is_digit :: "char \<Rightarrow> bool" where
  "is_digit c = (c \<in> set ''0123456789'')"

definition startsWith :: "string \<Rightarrow> string \<Rightarrow> bool" where
  "startsWith s p = (take (length p) s = p)"

definition formatPhoneNumber :: "string \<Rightarrow> string" where
  "formatPhoneNumber phone =
     (let cleaned = filter (\<lambda>c. is_digit c \<or> c = CHR ''+'') phone
      in if length cleaned = 11 \<and> startsWith cleaned ''1'' then ''+'' @ cleaned
         else if length cleaned = 10 then ''+1'' @ cleaned
         else if startsWith cleaned ''+'' then cleaned
         else phone)"

section \<open>utils.ts: helpers used by the database layer\<close>

text \<open>
  A thrown value is an \<open>Error\<close> object with its message, a string, or any other value,
  which is carried by the text that \<open>String(error)\<close> gives for it.
\<close>

datatype thrown = ErrorObject string | StringValue string | OtherValue string

fun getErrorMessage :: "thrown \<Rightarrow> string" where
  "getErrorMessage (ErrorObject message) = message"
| "getErrorMessage (StringValue s) = s"
| "getErrorMessage (OtherValue shown) = shown"

text \<open>\<open>truncate\<close> of the source; the name \<open>truncate\<close> belongs to the record package.
  Lengths are counted in 8-bit characters, which is the source's count on ASCII text.\<close>

definition truncate_string :: "string \<Rightarrow> int \<Rightarrow> string" where
  "truncate_string str maxLength =
     (if int (length str) \<le> maxLength then str
      else take (nat (maxLength - 3)) str @ ''...'')"

fun sanitizeForSqlLike :: "string \<Rightarrow> string" where
  "sanitizeForSqlLike [] = []"
| "sanitizeForSqlLike (c # cs) =
     (if c = CHR ''%'' \<or> c = CHR ''_'' then CHR 0x5C # c # sanitizeForSqlLike cs
      else c # sanitizeForSqlLike cs)"

text \<open>\<open>a || b\<close> on an operand of type \<open>string | null | undefined\<close>: the absent value and
  the empty string are both falsy.\<close>

fun or_else :: "string option \<Rightarrow> string \<Rightarrow> string" where
  "or_else None d = d"
| "or_else (Some s) d = (if s = [] then d else s)"

section \<open>database.ts: access diagnostics\<close>

text \<open>
  The file system and the database driver are the environment: whether the file exists,
  and for each of \<open>accessSync\<close>, \<open>new Database\<close> and \<open>db.close\<close> either normal
  return (\<open>None\<close>) or the value it throws. The function returns its result together with
  the calls it made, in order.
\<close>

record environment =
  file_exists :: bool
  access_outcome :: "thrown option"
  open_outcome :: "thrown option"
  close_outcome :: "thrown option"

datatype driver_call = ExistsSync | AccessSync | OpenDatabase | CloseDatabase

record DatabaseAccessResult =
  accessible :: bool
  error :: "string option"

text \<open>The arrow of the message is U+2192, written here as its UTF-8 bytes.\<close>

definition arrow :: string where
  "arrow = [CHR 0xE2, CHR 0x86, CHR 0x92]"

definition access_failure :: "thrown \<Rightarrow> DatabaseAccessResult" where
  "access_failure e =
     \<lparr>accessible = False,
      error = Some (''Cannot access Messages database. Grant Full Disk Access to your ''
        @ ''terminal in System Preferences '' @ arrow @ '' Privacy & Security '' @ arrow
        @ '' Full Disk Access. Error: '' @ getErrorMessage e)\<rparr>"

definition checkDatabaseAccess ::
    "string \<Rightarrow> environment \<Rightarrow> DatabaseAccessResult \<times> driver_call list" where
  "checkDatabaseAccess MESSAGES_DB_PATH env =
     (if \<not> file_exists env then
        (\<lparr>accessible = False,
          error = Some (''Messages database not found at '' @ MESSAGES_DB_PATH
            @ ''. Make sure Messages app has been used.'')\<rparr>,
         [ExistsSync])
      else
        (case access_outcome env of
           Some e \<Rightarrow> (access_failure e, [ExistsSync, AccessSync])
         | None \<Rightarrow>
            (case open_outcome env of
               Some e \<Rightarrow> (access_failure e, [ExistsSync, AccessSync, OpenDatabase])
             | None \<Rightarrow>
                (case close_outcome env of
                   Some e \<Rightarrow>
                     (access_failure e, [ExistsSync, AccessSync, OpenDatabase, CloseDatabase])
                 | None \<Rightarrow>
                     (\<lparr>accessible = True, error = None\<rparr>,
                      [ExistsSync, AccessSync, OpenDatabase, CloseDatabase])))))"

section \<open>types.ts: raw rows and entities\<close>

text \<open>Field \<open>f\<close> of interface \<open>I\<close> is the selector \<open>I_f\<close>. Integer columns of the store
  are integers; a column that may be \<open>null\<close> (or, for an optional field, missing) is
  an option.\<close>

record RawMessageRow =
  RawMessageRow_rowid :: int
  RawMessageRow_text :: "string option"
  RawMessageRow_date :: int
  RawMessageRow_is_from_me :: int
  RawMessageRow_cache_has_attachments :: int
  RawMessageRow_handle_id :: "string option"
  RawMessageRow_chat_name :: "string option"
  RawMessageRow_chat_identifier :: "string option"

record RawChatRow =
  RawChatRow_rowid :: int
  RawChatRow_chat_identifier :: string
  RawChatRow_display_name :: "string option"
  RawChatRow_service_name :: string
  RawChatRow_style :: int
  RawChatRow_message_count :: int
  RawChatRow_last_message_date :: "int option"
  RawChatRow_last_message :: "string option"

record Message =
  Message_id :: int
  Message_text :: string
  Message_date :: string
  Message_isFromMe :: bool
  Message_hasAttachments :: bool
  Message_contact :: string
  Message_chatName :: string

record ConversationMessage =
  ConversationMessage_id :: int
  ConversationMessage_text :: string
  ConversationMessage_date :: string
  ConversationMessage_isFromMe :: bool
  ConversationMessage_hasAttachments :: bool
  ConversationMessage_sender :: string

record Chat =
  Chat_id :: int
  Chat_identifier :: string
  Chat_displayName :: string
  Chat_service :: string
  Chat_isGroupChat :: bool
  Chat_messageCount :: int
  Chat_lastMessageDate :: string
  Chat_lastMessage :: string

section \<open>database.ts: row mapping\<close>

text \<open>
  The arrow functions given to \<open>messages.map\<close> and \<open>chats.map\<close>. \<open>formatDate\<close> is
  \<open>date.toLocaleString()\<close>, which depends on the locale of the host: it is a parameter.
  The driver hands a 64-bit integer column over as the nearest double.
\<close>

definition column_number :: "int \<Rightarrow> number" where
  "column_number i = Num (to_double (of_int i))"

definition getRecentMessages_row :: "(date \<Rightarrow> string) \<Rightarrow> RawMessageRow \<Rightarrow> Message" where
  "getRecentMessages_row formatDate msg =
     \<lparr>Message_id = RawMessageRow_rowid msg,
      Message_text = or_else (RawMessageRow_text msg) ''(attachment or empty)'',
      Message_date = formatDate (cocoaTimestampToDate (column_number (RawMessageRow_date msg))),
      Message_isFromMe = (RawMessageRow_is_from_me msg = 1),
      Message_hasAttachments = (RawMessageRow_cache_has_attachments msg = 1),
      Message_contact = or_else (RawMessageRow_handle_id msg) ''Unknown'',
      Message_chatName =
        or_else (RawMessageRow_chat_name msg)
          (or_else (RawMessageRow_chat_identifier msg) ''Direct Message'')\<rparr>"

definition getConversation_row ::
    "(date \<Rightarrow> string) \<Rightarrow> RawMessageRow \<Rightarrow> ConversationMessage" where
  "getConversation_row formatDate msg =
     \<lparr>ConversationMessage_id = RawMessageRow_rowid msg,
      ConversationMessage_text = or_else (RawMessageRow_text msg) ''(attachment or empty)'',
      ConversationMessage_date =
        formatDate (cocoaTimestampToDate (column_number (RawMessageRow_date msg))),
      ConversationMessage_isFromMe = (RawMessageRow_is_from_me msg = 1),
      ConversationMessage_hasAttachments = (RawMessageRow_cache_has_attachments msg = 1),
      ConversationMessage_sender =
        (if RawMessageRow_is_from_me msg = 1 then ''You''
         else or_else (RawMessageRow_handle_id msg) ''Them'')\<rparr>"

definition searchMessages_row :: "(date \<Rightarrow> string) \<Rightarrow> RawMessageRow \<Rightarrow> Message" where
  "searchMessages_row formatDate msg =
     \<lparr>Message_id = RawMessageRow_rowid msg,
      Message_text = or_else (RawMessageRow_text msg) '''',
      Message_date = formatDate (cocoaTimestampToDate (column_number (RawMessageRow_date msg))),
      Message_isFromMe = (RawMessageRow_is_from_me msg = 1),
      Message_hasAttachments = (RawMessageRow_cache_has_attachments msg = 1),
      Message_contact = or_else (RawMessageRow_handle_id msg) ''Unknown'',
      Message_chatName =
        or_else (RawMessageRow_chat_name msg)
          (or_else (RawMessageRow_chat_identifier msg) ''Direct Message'')\<rparr>"

definition listChats_row :: "(date \<Rightarrow> string) \<Rightarrow> RawChatRow \<Rightarrow> Chat" where
  "listChats_row formatDate chat =
     \<lparr>Chat_id = RawChatRow_rowid chat,
      Chat_identifier = RawChatRow_chat_identifier chat,
      Chat_displayName =
        or_else (RawChatRow_display_name chat) (RawChatRow_chat_identifier chat),
      Chat_service = RawChatRow_service_name chat,
      Chat_isGroupChat = (RawChatRow_style chat = 43),
      Chat_messageCount = RawChatRow_message_count chat,
      Chat_lastMessageDate =
        (case RawChatRow_last_message_date chat of
           None \<Rightarrow> ''Unknown''
         | Some d \<Rightarrow>
             if d = 0 then ''Unknown''
             else formatDate (cocoaTimestampToDate (column_number d))),
      Chat_lastMessage =
        (case RawChatRow_last_message chat of
           None \<Rightarrow> ''(no messages)''
         | Some s \<Rightarrow> if s = [] then ''(no messages)'' else truncate_string s 50)\<rparr>"

section \<open>The message store and the statements run against it\<close>

text \<open>
  The store is a SQLite database that the repository only reads. Its tables, with the
  columns the statements mention:
\<close>

record message_row =
  message_rowid :: int
  message_text :: "string option"
  message_date :: int
  message_is_from_me :: int
  message_cache_has_attachments :: int
  message_handle_id :: int

record handle_row =
  handle_rowid :: int
  handle_id :: string

record chat_row =
  chat_rowid :: int
  chat_chat_identifier :: string
  chat_display_name :: "string option"
  chat_service_name :: string
  chat_style :: int

record chat_message_join_row =
  cmj_chat_id :: int
  cmj_message_id :: int

record database =
  message :: "message_row list"
  handle :: "handle_row list"
  chat :: "chat_row list"
  chat_message_join :: "chat_message_join_row list"

text \<open>A value bound to a \<open>?\<close> of a prepared statement.\<close>

datatype param = PNumber number | PString string

subsection \<open>The operators of the query language\<close>

text \<open>
  \<open>LIKE\<close> without an \<open>ESCAPE\<close> clause, as SQLite evaluates it: \<open>%\<close> in the pattern
  matches any run of characters, \<open>_\<close> matches any one character, and every other
  character matches itself, upper and lower case ASCII letters being equal. Strings are
  lists of 8-bit characters here, so on text outside ASCII \<open>_\<close> stands for one byte of
  the encoding where the engine takes one character.
\<close>

definition like_fold :: "char \<Rightarrow> char" where
  "like_fold c =
     (let n = (of_char c :: nat) in if 65 \<le> n \<and> n \<le> 90 then char_of (n + 32) else c)"

fun sql_like :: "string \<Rightarrow> string \<Rightarrow> bool" where
  "sql_like [] v = (v = [])"
| "sql_like (p # ps) [] = (p = CHR ''%'' \<and> sql_like ps [])"
| "sql_like (p # ps) (c # cs) =
     (if p = CHR ''%'' then sql_like ps (c # cs) \<or> sql_like (p # ps) cs
      else (p = CHR ''_'' \<or> like_fold p = like_fold c) \<and> sql_like ps cs)"

text \<open>\<open>column > ?\<close> on an integer column; a bound \<open>NaN\<close> is \<open>NULL\<close>, and a comparison
  with \<open>NULL\<close> selects nothing.\<close>

fun sql_gt :: "int \<Rightarrow> number \<Rightarrow> bool" where
  "sql_gt d (Num r) = (r < of_int d)"
| "sql_gt d NaN = False"

text \<open>\<open>h.id LIKE ? OR h.id = ? OR h.id LIKE ?\<close> on a column that is \<open>NULL\<close> when the
  left join found no row.\<close>

fun like_or_equal_or_like :: "string option \<Rightarrow> string \<Rightarrow> string \<Rightarrow> string \<Rightarrow> bool" where
  "like_or_equal_or_like None p1 e p2 = False"
| "like_or_equal_or_like (Some v) p1 e p2 = (sql_like p1 v \<or> v = e \<or> sql_like p2 v)"

text \<open>\<open>m.text LIKE ?\<close> on a column that may be \<open>NULL\<close>.\<close>

fun column_like :: "string option \<Rightarrow> string \<Rightarrow> bool" where
  "column_like None p = False"
| "column_like (Some v) p = sql_like p v"

text \<open>
  \<open>LIMIT ?\<close>: a value that is not a whole number is refused by the engine, a negative
  value means no bound, any other value bounds the number of rows. (The engine also
  refuses a whole number beyond 64 bits; the model takes it as a bound.)
\<close>

fun sql_limit :: "number \<Rightarrow> thrown + nat option" where
  "sql_limit (Num r) =
     (if of_int \<lfloor>r\<rfloor> \<noteq> r then Inl (ErrorObject ''datatype mismatch'')
      else if r < 0 then Inr None
      else Inr (Some (nat \<lfloor>r\<rfloor>)))"
| "sql_limit NaN = Inl (ErrorObject ''datatype mismatch'')"

fun limit_rows :: "nat option \<Rightarrow> 'a list \<Rightarrow> 'a list" where
  "limit_rows None rows = rows"
| "limit_rows (Some n) rows = take n rows"

text \<open>
  \<open>ORDER BY\<close>. The language leaves the order of rows with equal keys open; both
  directions are modelled by a stable sort, which keeps such rows in the order of the
  scan. \<open>NULL\<close> sorts before every value (\<open>None\<close> is least), so it comes last in
  descending order.
\<close>

definition order_by_asc :: "('a \<Rightarrow> 'k::linorder) \<Rightarrow> 'a list \<Rightarrow> 'a list" where
  "order_by_asc key rows = sort_key key rows"

fun insert_desc :: "('a \<Rightarrow> 'k::linorder) \<Rightarrow> 'a \<Rightarrow> 'a list \<Rightarrow> 'a list" where
  "insert_desc key x [] = [x]"
| "insert_desc key x (y # ys) =
     (if key y < key x then x # y # ys else y # insert_desc key x ys)"

definition order_by_desc :: "('a \<Rightarrow> 'k::linorder) \<Rightarrow> 'a list \<Rightarrow> 'a list" where
  "order_by_desc key rows = fold (insert_desc key) rows []"

definition left_join :: "'a list \<Rightarrow> ('a \<Rightarrow> 'b \<Rightarrow> bool) \<Rightarrow> 'b list \<Rightarrow> ('a \<times> 'b option) list" where
  "left_join xs on ys =
     concat (map (\<lambda>x. case filter (on x) ys of
                         [] \<Rightarrow> [(x, None)]
                       | zs \<Rightarrow> map (\<lambda>y. (x, Some y)) zs) xs)"

subsection \<open>The rows the statements select from\<close>

text \<open>\<open>FROM message m LEFT JOIN handle h ON m.handle_id = h.rowid\<close>, projected on the
  selected columns.\<close>

definition message_handle_rows :: "database \<Rightarrow> RawMessageRow list" where
  "message_handle_rows db =
     map (\<lambda>(m, h).
           \<lparr>RawMessageRow_rowid = message_rowid m,
            RawMessageRow_text = message_text m,
            RawMessageRow_date = message_date m,
            RawMessageRow_is_from_me = message_is_from_me m,
            RawMessageRow_cache_has_attachments = message_cache_has_attachments m,
            RawMessageRow_handle_id = map_option handle_id h,
            RawMessageRow_chat_name = None,
            RawMessageRow_chat_identifier = None\<rparr>)
       (left_join (message db) (\<lambda>m h. message_handle_id m = handle_rowid h) (handle db))"

text \<open>The same with \<open>LEFT JOIN chat_message_join cmj ON m.rowid = cmj.message_id LEFT
  JOIN chat c ON cmj.chat_id = c.rowid\<close>.\<close>

definition message_handle_chat_rows :: "database \<Rightarrow> RawMessageRow list" where
  "message_handle_chat_rows db =
     map (\<lambda>(((m, h), j), c).
           \<lparr>RawMessageRow_rowid = message_rowid m,
            RawMessageRow_text = message_text m,
            RawMessageRow_date = message_date m,
            RawMessageRow_is_from_me = message_is_from_me m,
            RawMessageRow_cache_has_attachments = message_cache_has_attachments m,
            RawMessageRow_handle_id = map_option handle_id h,
            RawMessageRow_chat_name = (case c of None \<Rightarrow> None | Some c' \<Rightarrow> chat_display_name c'),
            RawMessageRow_chat_identifier = map_option chat_chat_identifier c\<rparr>)
       (left_join
          (left_join
             (left_join (message db) (\<lambda>m h. message_handle_id m = handle_rowid h) (handle db))
             (\<lambda>(m, h) j. message_rowid m = cmj_message_id j) (chat_message_join db))
          (\<lambda>((m, h), j) c. case j of None \<Rightarrow> False | Some j' \<Rightarrow> cmj_chat_id j' = chat_rowid c)
          (chat db))"

text \<open>The messages of a chat: \<open>FROM message m JOIN chat_message_join cmj ON m.rowid =
  cmj.message_id WHERE cmj.chat_id = c.rowid\<close>.\<close>

definition chat_messages :: "database \<Rightarrow> chat_row \<Rightarrow> message_row list" where
  "chat_messages db c =
     concat (map (\<lambda>m. map (\<lambda>j. m)
                        (filter (\<lambda>j. message_rowid m = cmj_message_id j
                                    \<and> cmj_chat_id j = chat_rowid c)
                           (chat_message_join db)))
               (message db))"

fun sql_max :: "int list \<Rightarrow> int option" where
  "sql_max [] = None"
| "sql_max (d # ds) = Some (fold max ds d)"

definition chat_rows :: "database \<Rightarrow> RawChatRow list" where
  "chat_rows db =
     map (\<lambda>c.
           \<lparr>RawChatRow_rowid = chat_rowid c,
            RawChatRow_chat_identifier = chat_chat_identifier c,
            RawChatRow_display_name = chat_display_name c,
            RawChatRow_service_name = chat_service_name c,
            RawChatRow_style = chat_style c,
            RawChatRow_message_count =
              int (length (filter (\<lambda>j. cmj_chat_id j = chat_rowid c) (chat_message_join db))),
            RawChatRow_last_message_date = sql_max (map message_date (chat_messages db c)),
            RawChatRow_last_message =
              (case limit_rows (Some 1) (order_by_desc message_date (chat_messages db c)) of
                 [] \<Rightarrow> None
               | m # _ \<Rightarrow> message_text m)\<rparr>)
       (chat db)"

subsection \<open>The statements of database.ts\<close>

text \<open>
  The texts handed to \<open>db.prepare\<close>, with every run of white space written as one blank
  (the language does not distinguish the two). The engine is not part of the
  repository: \<open>all_messages\<close> and \<open>all_chats\<close> give, for each of these texts and the
  values bound to its \<open>?\<close> marks, the rows that \<open>db.prepare(text).all(...)\<close> returns
  or the error it throws.
\<close>

definition getRecentMessages_select :: string where
  "getRecentMessages_select =
     ''SELECT m.rowid, m.text, m.date, m.is_from_me, m.cache_has_attachments, ''
     @ ''h.id as handle_id, c.display_name as chat_name, c.chat_identifier ''
     @ ''FROM message m LEFT JOIN handle h ON m.handle_id = h.rowid ''
     @ ''LEFT JOIN chat_message_join cmj ON m.rowid = cmj.message_id ''
     @ ''LEFT JOIN chat c ON cmj.chat_id = c.rowid WHERE m.date > ?''"

definition contact_clause :: string where
  "contact_clause = '' AND (h.id LIKE ? OR h.id = ? OR h.id LIKE ?)''"

definition order_desc_limit :: string where
  "order_desc_limit = '' ORDER BY m.date DESC LIMIT ?''"

definition getConversation_select :: string where
  "getConversation_select =
     ''SELECT m.rowid, m.text, m.date, m.is_from_me, m.cache_has_attachments, ''
     @ ''h.id as handle_id ''
     @ ''FROM message m LEFT JOIN handle h ON m.handle_id = h.rowid ''
     @ ''WHERE m.date > ? AND (h.id LIKE ? OR h.id = ? OR h.id LIKE ?) ''
     @ ''ORDER BY m.date ASC LIMIT ?''"

definition searchMessages_select :: string where
  "searchMessages_select =
     ''SELECT m.rowid, m.text, m.date, m.is_from_me, m.cache_has_attachments, ''
     @ ''h.id as handle_id, c.display_name as chat_name, c.chat_identifier ''
     @ ''FROM message m LEFT JOIN handle h ON m.handle_id = h.rowid ''
     @ ''LEFT JOIN chat_message_join cmj ON m.rowid = cmj.message_id ''
     @ ''LEFT JOIN chat c ON cmj.chat_id = c.rowid ''
     @ ''WHERE m.date > ? AND m.text LIKE ? ORDER BY m.date DESC LIMIT ?''"

definition listChats_select :: string where
  "listChats_select =
     ''SELECT c.rowid, c.chat_identifier, c.display_name, c.service_name, c.style, ''
     @ ''(SELECT COUNT(*) FROM chat_message_join WHERE chat_id = c.rowid) as message_count, ''
     @ ''(SELECT MAX(m.date) FROM message m ''
     @ ''JOIN chat_message_join cmj ON m.rowid = cmj.message_id ''
     @ ''WHERE cmj.chat_id = c.rowid) as last_message_date, ''
     @ ''(SELECT m.text FROM message m ''
     @ ''JOIN chat_message_join cmj ON m.rowid = cmj.message_id ''
     @ ''WHERE cmj.chat_id = c.rowid ORDER BY m.date DESC LIMIT 1) as last_message ''
     @ ''FROM chat c''"

definition no_group_chats :: string where
  "no_group_chats = '' WHERE c.style != 43''"

definition order_last_limit :: string where
  "order_last_limit = '' ORDER BY last_message_date DESC LIMIT ?''"

definition select_rows ::
    "'a list \<Rightarrow> ('a \<Rightarrow> bool) \<Rightarrow> ('a list \<Rightarrow> 'a list) \<Rightarrow> number \<Rightarrow> thrown + 'a list" where
  "select_rows rows condition order n =
     (case sql_limit n of
        Inl e \<Rightarrow> Inl e
      | Inr bound \<Rightarrow> Inr (limit_rows bound (order (filter condition rows))))"

definition wrong_bindings :: thrown where
  "wrong_bindings = ErrorObject ''values do not fit the parameters of the statement''"

fun run_recent :: "database \<Rightarrow> param list \<Rightarrow> thrown + RawMessageRow list" where
  "run_recent db [PNumber t, PNumber n] =
     select_rows (message_handle_chat_rows db)
       (\<lambda>r. sql_gt (RawMessageRow_date r) t)
       (order_by_desc RawMessageRow_date) n"
| "run_recent db _ = Inl wrong_bindings"

fun run_recent_contact :: "database \<Rightarrow> param list \<Rightarrow> thrown + RawMessageRow list" where
  "run_recent_contact db [PNumber t, PString p1, PString e, PString p2, PNumber n] =
     select_rows (message_handle_chat_rows db)
       (\<lambda>r. sql_gt (RawMessageRow_date r) t
             \<and> like_or_equal_or_like (RawMessageRow_handle_id r) p1 e p2)
       (order_by_desc RawMessageRow_date) n"
| "run_recent_contact db _ = Inl wrong_bindings"

fun run_conversation :: "database \<Rightarrow> param list \<Rightarrow> thrown + RawMessageRow list" where
  "run_conversation db [PNumber t, PString p1, PString e, PString p2, PNumber n] =
     select_rows (message_handle_rows db)
       (\<lambda>r. sql_gt (RawMessageRow_date r) t
             \<and> like_or_equal_or_like (RawMessageRow_handle_id r) p1 e p2)
       (order_by_asc RawMessageRow_date) n"
| "run_conversation db _ = Inl wrong_bindings"

fun run_search :: "database \<Rightarrow> param list \<Rightarrow> thrown + RawMessageRow list" where
  "run_search db [PNumber t, PString p, PNumber n] =
     select_rows (message_handle_chat_rows db)
       (\<lambda>r. sql_gt (RawMessageRow_date r) t
             \<and> column_like (RawMessageRow_text r) p)
       (order_by_desc RawMessageRow_date) n"
| "run_search db _ = Inl wrong_bindings"

fun run_chats :: "bool \<Rightarrow> database \<Rightarrow> param list \<Rightarrow> thrown + RawChatRow list" where
  "run_chats groups db [PNumber n] =
     select_rows (chat_rows db)
       (\<lambda>r. groups \<or> RawChatRow_style r \<noteq> 43)
       (order_by_desc RawChatRow_last_message_date) n"
| "run_chats groups db _ = Inl wrong_bindings"

definition all_messages :: "database \<Rightarrow> string \<Rightarrow> param list \<Rightarrow> thrown + RawMessageRow list" where
  "all_messages db query params =
     (if query = getRecentMessages_select @ order_desc_limit then run_recent db params
      else if query = getRecentMessages_select @ contact_clause @ order_desc_limit
        then run_recent_contact db params
      else if query = getConversation_select then run_conversation db params
      else if query = searchMessages_select then run_search db params
      else Inl (ErrorObject ''statement outside the model''))"

definition all_chats :: "database \<Rightarrow> string \<Rightarrow> param list \<Rightarrow> thrown + RawChatRow list" where
  "all_chats db query params =
     (if query = listChats_select @ order_last_limit then run_chats True db params
      else if query = listChats_select @ no_group_chats @ order_last_limit
        then run_chats False db params
      else Inl (ErrorObject ''statement outside the model''))"

subsection \<open>The query functions\<close>

text \<open>
  Each function builds the statement text and the list of bound values as the source
  does, runs it and maps the rows. \<open>getDatabase()\<close> either throws or gives the
  connection; \<open>db.close()\<close> in the \<open>finally\<close> block does not change the result.
  The arguments are taken as given: the default values of the source apply only to an
  argument that is left out.
\<close>

definition getRecentMessages_statement ::
    "int \<Rightarrow> number \<Rightarrow> string option \<Rightarrow> number \<Rightarrow> string \<times> param list" where
  "getRecentMessages_statement now hours contact limit =
     (let cocoaTimestamp = hoursAgoToCocoaTimestamp now hours;
          query = getRecentMessages_select;
          params = [PNumber cocoaTimestamp];
          (query, params) =
            (case contact of
               None \<Rightarrow> (query, params)
             | Some c \<Rightarrow>
                 if c = [] then (query, params)
                 else
                   (let formattedContact = formatPhoneNumber c
                    in (query @ '' AND (h.id LIKE ? OR h.id = ? OR h.id LIKE ?)'',
                        params @ [PString (''%'' @ c @ ''%''), PString formattedContact,
                                  PString (''%'' @ formattedContact @ ''%'')])))
      in (query @ '' ORDER BY m.date DESC LIMIT ?'', params @ [PNumber limit]))"

definition getRecentMessages ::
    "(date \<Rightarrow> string) \<Rightarrow> int \<Rightarrow> thrown + database \<Rightarrow> number \<Rightarrow> string option \<Rightarrow> number
      \<Rightarrow> thrown + Message list" where
  "getRecentMessages formatDate now getDatabase hours contact limit =
     (case getDatabase of
        Inl e \<Rightarrow> Inl e
      | Inr db \<Rightarrow>
          (case (let (query, params) = getRecentMessages_statement now hours contact limit
                 in all_messages db query params) of
             Inl e \<Rightarrow> Inl e
           | Inr messages \<Rightarrow> Inr (map (getRecentMessages_row formatDate) messages)))"

definition getConversation_statement ::
    "int \<Rightarrow> string \<Rightarrow> number \<Rightarrow> number \<Rightarrow> string \<times> param list" where
  "getConversation_statement now contact days limit =
     (let cocoaTimestamp = daysAgoToCocoaTimestamp now days;
          formattedContact = formatPhoneNumber contact
      in (getConversation_select,
          [PNumber cocoaTimestamp, PString (''%'' @ contact @ ''%''), PString formattedContact,
           PString (''%'' @ formattedContact @ ''%''), PNumber limit]))"

definition getConversation ::
    "(date \<Rightarrow> string) \<Rightarrow> int \<Rightarrow> thrown + database \<Rightarrow> string \<Rightarrow> number \<Rightarrow> number
      \<Rightarrow> thrown + ConversationMessage list" where
  "getConversation formatDate now getDatabase contact days limit =
     (case getDatabase of
        Inl e \<Rightarrow> Inl e
      | Inr db \<Rightarrow>
          (case (let (query, params) = getConversation_statement now contact days limit
                 in all_messages db query params) of
             Inl e \<Rightarrow> Inl e
           | Inr messages \<Rightarrow> Inr (map (getConversation_row formatDate) messages)))"

definition searchMessages_statement ::
    "int \<Rightarrow> string \<Rightarrow> number \<Rightarrow> number \<Rightarrow> string \<times> param list" where
  "searchMessages_statement now query days limit =
     (let cocoaTimestamp = daysAgoToCocoaTimestamp now days
      in (searchMessages_select,
          [PNumber cocoaTimestamp, PString (''%'' @ query @ ''%''), PNumber limit]))"

definition searchMessages ::
    "(date \<Rightarrow> string) \<Rightarrow> int \<Rightarrow> thrown + database \<Rightarrow> string \<Rightarrow> number \<Rightarrow> number
      \<Rightarrow> thrown + Message list" where
  "searchMessages formatDate now getDatabase query days limit =
     (case getDatabase of
        Inl e \<Rightarrow> Inl e
      | Inr db \<Rightarrow>
          (case (let (text, params) = searchMessages_statement now query days limit
                 in all_messages db text params) of
             Inl e \<Rightarrow> Inl e
           | Inr messages \<Rightarrow> Inr (map (searchMessages_row formatDate) messages)))"

definition listChats_statement :: "number \<Rightarrow> bool \<Rightarrow> string \<times> param list" where
  "listChats_statement limit includeGroupChats =
     (let query = listChats_select;
          query = (if \<not> includeGroupChats then query @ '' WHERE c.style != 43'' else query)
      in (query @ '' ORDER BY last_message_date DESC LIMIT ?'', [PNumber limit]))"

definition listChats ::
    "(date \<Rightarrow> string) \<Rightarrow> thrown + database \<Rightarrow> number \<Rightarrow> bool \<Rightarrow> thrown + Chat list" where
  "listChats formatDate getDatabase limit includeGroupChats =
     (case getDatabase of
        Inl e \<Rightarrow> Inl e
      | Inr db \<Rightarrow>
          (case (let (query, params) = listChats_statement limit includeGroupChats
                 in all_chats db query params) of
             Inl e \<Rightarrow> Inl e
           | Inr chats \<Rightarrow> Inr (map (listChats_row formatDate) chats)))"

subsection \<open>A small store\<close>

text \<open>One contact, one chat and three messages, the second without text.\<close>

definition db1 :: database where
  "db1 = \<lparr>message =
      [\<lparr>message_rowid = 1, message_text = Some ''hello'', message_date = 700000000000000000,
        message_is_from_me = 0, message_cache_has_attachments = 0, message_handle_id = 1\<rparr>,
       \<lparr>message_rowid = 2, message_text = None, message_date = 720000000000000000,
        message_is_from_me = 1, message_cache_has_attachments = 1, message_handle_id = 1\<rparr>,
       \<lparr>message_rowid = 3, message_text = Some ''Hello again'', message_date = 710000000000000000,
        message_is_from_me = 0, message_cache_has_attachments = 0, message_handle_id = 1\<rparr>],
     handle = [\<lparr>handle_rowid = 1, handle_id = ''+15551234567''\<rparr>],
     chat = [\<lparr>chat_rowid = 1, chat_chat_identifier = ''+15551234567'', chat_display_name = None,
              chat_service_name = ''iMessage'', chat_style = 45\<rparr>],
     chat_message_join = [\<lparr>cmj_chat_id = 1, cmj_message_id = 1\<rparr>,
       \<lparr>cmj_chat_id = 1, cmj_message_id = 2\<rparr>, \<lparr>cmj_chat_id = 1, cmj_message_id = 3\<rparr>]\<rparr>"


section \<open>Rounding to a double\<close>

text \<open>
  \<open>to_double\<close> has relative error at most \<open>2^-53\<close> on normal numbers, is monotone, and
  leaves every whole number below \<open>2^53\<close> in magnitude unchanged.
\<close>

lemma pow2_diff: "(2::rat) powi (m - n) = 2 powi m / 2 powi n"
  by (simp add: power_int_diff)

lemma pow2_add: "(2::rat) powi (m + n) = 2 powi m * 2 powi n"
  by (simp add: power_int_add)

lemma pow2_pos: "(0::rat) < 2 powi n"
  by simp

lemma pow2_mono: "m \<le> n \<Longrightarrow> (2::rat) powi m \<le> 2 powi n"
  by (simp add: power_int_increasing)

lemma bitlen_powi_bounds:
  assumes "0 < p"
  shows "2 powi (bitlen p - 1) \<le> (of_int p :: rat)" and "(of_int p :: rat) < 2 powi bitlen p"
proof -
  from bitlen_bounds [OF assms]
  have b: "2 ^ nat (bitlen p - 1) \<le> p" "p < 2 ^ nat (bitlen p)" by simp_all
  have pos: "1 \<le> bitlen p" using assms by (simp add: bitlen_alt_def)
  have "(2::rat) powi (bitlen p - 1) = 2 ^ nat (bitlen p - 1)"
    using pos by (simp add: power_int_nonneg_exp)
  also have "\<dots> = of_int (2 ^ nat (bitlen p - 1))" by simp
  also have "\<dots> \<le> of_int p" using b(1) by (simp only: of_int_le_iff)
  finally show "2 powi (bitlen p - 1) \<le> (of_int p :: rat)" .
  have "(of_int p :: rat) < of_int (2 ^ nat (bitlen p))"
    using b(2) by (simp only: of_int_less_iff)
  also have "\<dots> = 2 powi bitlen p"
    using pos by (simp add: power_int_nonneg_exp)
  finally show "(of_int p :: rat) < 2 powi bitlen p" .
qed

lemma ilog2_bounds:
  assumes "0 < a"
  shows "2 powi ilog2 a \<le> a" and "a < 2 powi (ilog2 a + 1)"
proof -
  obtain p q where pq: "quotient_of a = (p, q)" by (cases "quotient_of a")
  then have q: "0 < q" by (rule quotient_of_denom_pos)
  have a: "a = of_int p / of_int q" using pq by (rule quotient_of_div)
  have p: "0 < p" using assms q a by (simp add: zero_less_divide_iff)
  let ?d = "bitlen p - bitlen q"
  have il: "ilog2 a = (if 2 powi ?d \<le> a then ?d else ?d - 1)"
    by (simp add: ilog2_def pq Let_def)
  have qpos: "(0::rat) < of_int q" using q by simp
  have lower: "2 powi (?d - 1) \<le> a"
  proof -
    have "?d - 1 = (bitlen p - 1) - bitlen q" by simp
    then have "(2::rat) powi (?d - 1) = 2 powi (bitlen p - 1) / 2 powi bitlen q"
      by (simp only: pow2_diff)
    also have "\<dots> \<le> of_int p / 2 powi bitlen q"
      using bitlen_powi_bounds(1) [OF p] by (simp add: divide_right_mono)
    also have "\<dots> \<le> of_int p / of_int q"
      using bitlen_powi_bounds(2) [OF q] p qpos
      by (intro divide_left_mono) (simp_all add: less_imp_le)
    finally show ?thesis using a by simp
  qed
  have upper: "a < 2 powi (?d + 1)"
  proof -
    have "a = of_int p / of_int q" by (rule a)
    also have "\<dots> < 2 powi bitlen p / of_int q"
      using bitlen_powi_bounds(2) [OF p] qpos by (simp add: divide_strict_right_mono)
    also have "\<dots> \<le> 2 powi bitlen p / 2 powi (bitlen q - 1)"
      using bitlen_powi_bounds(1) [OF q] qpos
      by (intro divide_left_mono) simp_all
    also have "\<dots> = 2 powi (bitlen p - (bitlen q - 1))"
      by (simp only: pow2_diff)
    also have "bitlen p - (bitlen q - 1) = ?d + 1" by simp
    finally show ?thesis .
  qed
  show "2 powi ilog2 a \<le> a" using il lower by auto
  show "a < 2 powi (ilog2 a + 1)"
  proof (cases "2 powi ?d \<le> a")
    case True
    then show ?thesis using il upper by simp
  next
    case False
    then show ?thesis using il by simp
  qed
qed

lemma ilog2_mono:
  assumes "0 < a" "a \<le> b"
  shows "ilog2 a \<le> ilog2 b"
proof (rule ccontr)
  assume "\<not> ilog2 a \<le> ilog2 b"
  then have "ilog2 b + 1 \<le> ilog2 a" by simp
  then have "(2::rat) powi (ilog2 b + 1) \<le> 2 powi ilog2 a" by (rule pow2_mono)
  also have "\<dots> \<le> a" using assms(1) by (rule ilog2_bounds)
  also have "a \<le> b" by (rule assms)
  also have "b < 2 powi (ilog2 b + 1)" using assms by (intro ilog2_bounds) simp
  finally show False by simp
qed

lemma ilog2_ge:
  assumes "0 < a" "2 powi n \<le> a"
  shows "n \<le> ilog2 a"
proof (rule ccontr)
  assume "\<not> n \<le> ilog2 a"
  then have "ilog2 a + 1 \<le> n" by simp
  then have "(2::rat) powi (ilog2 a + 1) \<le> 2 powi n" by (rule pow2_mono)
  also have "\<dots> \<le> a" by (rule assms)
  also have "a < 2 powi (ilog2 a + 1)" using assms(1) by (rule ilog2_bounds)
  finally show False by simp
qed

lemma ilog2_less:
  assumes "0 < a" "a < 2 powi n"
  shows "ilog2 a < n"
proof (rule ccontr)
  assume "\<not> ilog2 a < n"
  then have "n \<le> ilog2 a" by simp
  then have "(2::rat) powi n \<le> 2 powi ilog2 a" by (rule pow2_mono)
  also have "\<dots> \<le> a" using assms(1) by (rule ilog2_bounds)
  finally show False using assms(2) by simp
qed

lemma round_half_even_cases:
  "round_half_even m = \<lfloor>m\<rfloor> \<or> round_half_even m = \<lfloor>m\<rfloor> + 1"
  by (simp add: round_half_even_def Let_def)

lemma round_half_even_error: "\<bar>of_int (round_half_even m) - m\<bar> \<le> 1 / 2"
proof -
  have "of_int \<lfloor>m\<rfloor> \<le> m" "m < of_int \<lfloor>m\<rfloor> + 1" by linarith+
  then show ?thesis
    by (auto simp add: round_half_even_def Let_def abs_le_iff)
qed

lemma round_half_even_of_int [simp]: "round_half_even (of_int k) = k"
  by (simp add: round_half_even_def)

lemma round_half_even_ge:
  assumes "of_int k \<le> m"
  shows "k \<le> round_half_even m"
proof -
  have "k \<le> \<lfloor>m\<rfloor>" using assms by (simp add: le_floor_iff)
  then show ?thesis using round_half_even_cases [of m] by auto
qed

lemma round_half_even_le:
  assumes "m \<le> of_int k"
  shows "round_half_even m \<le> k"
proof (cases "m = of_int k")
  case True
  then show ?thesis by simp
next
  case False
  with assms have "m < of_int k" by simp
  then have "\<lfloor>m\<rfloor> < k" by (simp add: floor_less_iff)
  then show ?thesis using round_half_even_cases [of m] by auto
qed

lemma round_half_even_mono:
  assumes "m \<le> n"
  shows "round_half_even m \<le> round_half_even n"
proof (cases "\<lfloor>m\<rfloor> = \<lfloor>n\<rfloor>")
  case True
  then show ?thesis using assms by (auto simp add: round_half_even_def Let_def)
next
  case False
  moreover have "\<lfloor>m\<rfloor> \<le> \<lfloor>n\<rfloor>" using assms by (rule floor_mono)
  ultimately have "\<lfloor>m\<rfloor> + 1 \<le> \<lfloor>n\<rfloor>" by simp
  then show ?thesis
    using round_half_even_cases [of m] round_half_even_cases [of n] by auto
qed

lemma round_half_even_minus: "round_half_even (- m) = - round_half_even m"
proof (cases "m = of_int \<lfloor>m\<rfloor>")
  case True
  then obtain k where "m = of_int k" ..
  then have "round_half_even (- m) = round_half_even (of_int (- k))" by simp
  also have "\<dots> = - k" by (rule round_half_even_of_int)
  finally show ?thesis using \<open>m = of_int k\<close> by simp
next
  case False
  then have fl: "\<lfloor>- m\<rfloor> = - \<lfloor>m\<rfloor> - 1"
    by (metis ceiling_def ceiling_altdef floor_of_int minus_diff_eq minus_minus
        diff_minus_eq_add uminus_add_conv_diff)
  have frac: "of_int \<lfloor>m\<rfloor> < m" "m < of_int \<lfloor>m\<rfloor> + 1"
    using False by (linarith, linarith)
  show ?thesis
    unfolding round_half_even_def Let_def fl using frac
    by (auto simp add: algebra_simps)
qed

lemma to_double_eq:
  "x \<noteq> 0 \<Longrightarrow>
   to_double x =
     of_int (round_half_even (x / 2 powi double_exponent x)) * 2 powi double_exponent x"
  by (simp add: to_double_def)

lemma to_double_minus: "to_double (- x) = - to_double x"
proof (cases "x = 0")
  case True
  then show ?thesis by (simp add: to_double_def)
next
  case False
  have e: "double_exponent (- x) = double_exponent x" by (simp add: double_exponent_def)
  show ?thesis
    using False by (simp add: to_double_eq e round_half_even_minus)
qed

lemma to_double_error:
  assumes "2 powi (- 1022) \<le> x"
  shows "\<bar>to_double x - x\<bar> \<le> x / 9007199254740992"
proof -
  have pos: "0 < x" using assms pow2_pos [of "- 1022"] by linarith
  then have ne: "x \<noteq> 0" by simp
  have "- 1022 \<le> ilog2 x" using pos assms by (rule ilog2_ge)
  then have e: "double_exponent x = ilog2 x - 52" using pos by (simp add: double_exponent_def)
  let ?e = "ilog2 x - 52"
  let ?m = "x / 2 powi ?e"
  have x: "x = ?m * 2 powi ?e" by simp
  have "to_double x - x = (of_int (round_half_even ?m) - ?m) * 2 powi ?e"
    using ne by (simp add: to_double_eq e left_diff_distrib)
  then have "\<bar>to_double x - x\<bar> = \<bar>of_int (round_half_even ?m) - ?m\<bar> * 2 powi ?e"
    by (simp add: abs_mult)
  also have "\<dots> \<le> (1 / 2) * 2 powi ?e"
    using round_half_even_error [of ?m] by (intro mult_right_mono) simp_all
  also have "\<dots> = 2 powi ilog2 x / 9007199254740992"
    by (simp add: pow2_diff)
  also have "\<dots> \<le> x / 9007199254740992"
    using ilog2_bounds(1) [OF pos] by (simp add: divide_right_mono)
  finally show ?thesis .
qed

lemma to_double_upper:
  assumes "0 < x"
  shows "to_double x \<le> 2 powi (max (ilog2 x + 1) (double_exponent x))"
proof -
  let ?e = "double_exponent x"
  let ?t = "max (ilog2 x + 1) ?e"
  have ne: "x \<noteq> 0" using assms by simp
  have "0 \<le> ?t - ?e" by simp
  then have int: "(2::rat) powi (?t - ?e) = of_int (2 ^ nat (?t - ?e))"
    by (simp add: power_int_nonneg_exp)
  have "x < 2 powi (ilog2 x + 1)" using assms by (rule ilog2_bounds)
  also have "\<dots> \<le> 2 powi ?t" by (rule pow2_mono) simp
  finally have "x / 2 powi ?e \<le> 2 powi ?t / 2 powi ?e"
    by (simp add: divide_right_mono less_imp_le)
  also have "\<dots> = of_int (2 ^ nat (?t - ?e))"
    using int by (simp only: pow2_diff)
  finally have "round_half_even (x / 2 powi ?e) \<le> 2 ^ nat (?t - ?e)"
    by (rule round_half_even_le)
  then have "(of_int (round_half_even (x / 2 powi ?e)) :: rat) \<le> of_int (2 ^ nat (?t - ?e))"
    by (simp only: of_int_le_iff)
  then have "of_int (round_half_even (x / 2 powi ?e)) * 2 powi ?e
      \<le> (of_int (2 ^ nat (?t - ?e)) :: rat) * 2 powi ?e"
    by (intro mult_right_mono) simp_all
  then have "to_double x \<le> of_int (2 ^ nat (?t - ?e)) * 2 powi ?e"
    by (simp only: to_double_eq [OF ne])
  also have "\<dots> = 2 powi (?t - ?e) * 2 powi ?e" by (simp only: int)
  also have "\<dots> = 2 powi ?t" by (simp only: pow2_add [symmetric]) simp
  finally show ?thesis .
qed

lemma to_double_lower:
  assumes "0 < y" "- 1074 \<le> ilog2 y - 52"
  shows "2 powi ilog2 y \<le> to_double y"
proof -
  have ne: "y \<noteq> 0" using assms by simp
  have e: "double_exponent y = ilog2 y - 52" using assms by (simp add: double_exponent_def)
  let ?e = "ilog2 y - 52"
  have "(of_int (2 ^ 52) :: rat) = 2 powi (ilog2 y - ?e)" by simp
  also have "\<dots> = 2 powi ilog2 y / 2 powi ?e" by (rule pow2_diff)
  also have "\<dots> \<le> y / 2 powi ?e"
    using ilog2_bounds(1) [OF assms(1)] by (simp add: divide_right_mono)
  finally have "2 ^ 52 \<le> round_half_even (y / 2 powi ?e)"
    by (rule round_half_even_ge)
  then have "(of_int (2 ^ 52) :: rat) \<le> of_int (round_half_even (y / 2 powi ?e))"
    by (simp only: of_int_le_iff)
  then have "(of_int (2 ^ 52) :: rat) * 2 powi ?e
      \<le> of_int (round_half_even (y / 2 powi ?e)) * 2 powi ?e"
    by (intro mult_right_mono) simp_all
  then have "of_int (2 ^ 52) * 2 powi ?e \<le> to_double y"
    by (simp only: to_double_eq [OF ne] e)
  moreover have "(of_int (2 ^ 52) :: rat) * 2 powi ?e = 2 powi ilog2 y"
  proof -
    have "(of_int (2 ^ 52) :: rat) * 2 powi ?e = 2 powi 52 * 2 powi ?e" by simp
    also have "\<dots> = 2 powi (52 + ?e)" by (simp only: pow2_add)
    also have "52 + ?e = ilog2 y" by simp
    finally show ?thesis .
  qed
  ultimately show ?thesis by simp
qed

lemma to_double_mono:
  assumes "0 < x" "x \<le> y"
  shows "to_double x \<le> to_double y"
proof -
  have ypos: "0 < y" using assms by simp
  have il: "ilog2 x \<le> ilog2 y" using assms by (rule ilog2_mono)
  then have el: "double_exponent x \<le> double_exponent y"
    using assms ypos by (simp add: double_exponent_def)
  show ?thesis
  proof (cases "double_exponent x = double_exponent y")
    case True
    let ?e = "double_exponent y"
    have "x / 2 powi ?e \<le> y / 2 powi ?e" using assms(2) by (simp add: divide_right_mono)
    then have "round_half_even (x / 2 powi ?e) \<le> round_half_even (y / 2 powi ?e)"
      by (rule round_half_even_mono)
    then have "(of_int (round_half_even (x / 2 powi ?e)) :: rat) * 2 powi ?e
        \<le> of_int (round_half_even (y / 2 powi ?e)) * 2 powi ?e"
      by (intro mult_right_mono) simp_all
    then show ?thesis using assms ypos True by (simp add: to_double_eq)
  next
    case False
    with el have less: "double_exponent x < double_exponent y" by simp
    then have ey: "double_exponent y = ilog2 y - 52" "- 1074 \<le> ilog2 y - 52"
      using assms ypos by (auto simp add: double_exponent_def)
    have "ilog2 x - 52 \<le> double_exponent x" using assms by (simp add: double_exponent_def)
    with less ey have "max (ilog2 x + 1) (double_exponent x) \<le> ilog2 y" by simp
    then have "(2::rat) powi (max (ilog2 x + 1) (double_exponent x)) \<le> 2 powi ilog2 y"
      by (rule pow2_mono)
    with to_double_upper [OF assms(1)] to_double_lower [OF ypos ey(2)]
    show ?thesis by linarith
  qed
qed

lemma to_double_of_nat_int:
  assumes "0 < k" "k < 9007199254740992"
  shows "to_double (of_int k) = of_int k"
proof -
  have pos: "(0::rat) < of_int k" using assms by simp
  have "(of_int k :: rat) < of_int 9007199254740992" using assms(2) by (simp only: of_int_less_iff)
  also have "\<dots> = 2 powi 53" by simp
  finally have "ilog2 (of_int k) < 53" using pos by (intro ilog2_less)
  then have e: "double_exponent (of_int k) \<le> 0" using pos by (simp add: double_exponent_def)
  let ?e = "double_exponent (of_int k)"
  have p: "(2::rat) powi ?e = 1 / of_int (2 ^ nat (- ?e))"
  proof -
    have "(2::rat) powi ?e = 2 powi (- (- ?e))" by simp
    also have "\<dots> = 1 / 2 powi (- ?e)" by (rule power_int_minus_divide)
    also have "(2::rat) powi (- ?e) = of_int (2 ^ nat (- ?e))"
      using e by (simp add: power_int_nonneg_exp)
    finally show ?thesis .
  qed
  have "of_int k / (2::rat) powi ?e = of_int (k * 2 ^ nat (- ?e))"
    by (simp add: p)
  then have "round_half_even (of_int k / 2 powi ?e) = k * 2 ^ nat (- ?e)"
    by (simp only: round_half_even_of_int)
  then have "to_double (of_int k) = of_int (k * 2 ^ nat (- ?e)) * 2 powi ?e"
    using pos by (simp add: to_double_eq)
  also have "\<dots> = of_int k" by (simp add: p)
  finally show ?thesis .
qed

lemma to_double_of_int:
  assumes "\<bar>k\<bar> < 9007199254740992"
  shows "to_double (of_int k) = of_int k"
proof -
  consider "k = 0" | "0 < k" | "k < 0" by linarith
  then show ?thesis
  proof cases
    case 1
    then show ?thesis by (simp add: to_double_def)
  next
    case 2
    with assms show ?thesis by (intro to_double_of_nat_int) simp_all
  next
    case 3
    with assms have "to_double (of_int (- k)) = of_int (- k)"
      by (intro to_double_of_nat_int) simp_all
    then show ?thesis using to_double_minus [of "of_int k"] by simp
  qed
qed

lemma to_double_error_ge1:
  assumes "1 \<le> x"
  shows "\<bar>to_double x - x\<bar> \<le> x / 9007199254740992"
proof -
  have "(2::rat) powi (- 1022) \<le> 2 powi 0" by (rule pow2_mono) simp
  then have "2 powi (- 1022) \<le> x" using assms by simp
  then show ?thesis by (rule to_double_error)
qed

lemma to_double_within:
  assumes "1 \<le> x" "x \<le> b"
  shows "x - b / 9007199254740992 \<le> to_double x"
    and "to_double x \<le> x + b / 9007199254740992"
proof -
  have "x / 9007199254740992 \<le> b / 9007199254740992"
    using assms(2) by (simp add: divide_right_mono)
  with to_double_error_ge1 [OF assms(1)]
  show "x - b / 9007199254740992 \<le> to_double x"
    and "to_double x \<le> x + b / 9007199254740992"
    unfolding abs_le_iff by linarith+
qed

section \<open>Timestamp translation\<close>

lemma cocoaTimestampToDate_Num:
  "cocoaTimestampToDate (Num t) =
     (if 1000000000000 < t
      then newDate (Num (to_double (to_double (to_double (t / 1000000000) + 978307200) * 1000)))
      else newDate (Num (to_double (to_double (t + 978307200) * 1000))))"
  by (simp add: cocoaTimestampToDate_def COCOA_EPOCH_DIFF_def)

lemma truncate_of_int: "truncate_towards_zero (of_int k) = k"
  by (simp add: truncate_towards_zero_def)

lemma newDate_of_int:
  "newDate (Num (of_int k)) = (if \<bar>k\<bar> > 8640000000000000 then InvalidDate else Date k)"
proof -
  have "(\<bar>of_int k :: rat\<bar> > 8640000000000000) = (\<bar>k\<bar> > 8640000000000000)"
    by linarith
  then show ?thesis by (simp add: truncate_of_int)
qed

lemma cocoaTimestampToDate_seconds:
  assumes "k \<le> 1000000000000" "\<bar>(k + 978307200) * 1000\<bar> \<le> 8640000000000000"
  shows "cocoaTimestampToDate (Num (of_int k)) = Date ((k + 978307200) * 1000)"
proof -
  have a: "\<bar>k + 978307200\<bar> < 9007199254740992"
    using assms(2) by (simp add: abs_le_iff abs_less_iff algebra_simps)
  have b: "\<bar>(k + 978307200) * 1000\<bar> < 9007199254740992"
    using assms(2) by (simp add: abs_le_iff abs_less_iff algebra_simps)
  have "to_double (of_int k + 978307200) = to_double (of_int (k + 978307200))" by simp
  also have "\<dots> = of_int (k + 978307200)" using a by (rule to_double_of_int)
  finally have s: "to_double (of_int k + 978307200) = of_int (k + 978307200)" .
  have "to_double (of_int (k + 978307200) * 1000) = to_double (of_int ((k + 978307200) * 1000))"
    by simp
  also have "\<dots> = of_int ((k + 978307200) * 1000)" using b by (rule to_double_of_int)
  finally have m: "to_double (of_int (k + 978307200) * 1000) = of_int ((k + 978307200) * 1000)" .
  have "cocoaTimestampToDate (Num (of_int k)) =
        newDate (Num (to_double (to_double (of_int k + 978307200) * 1000)))"
    using assms(1) by (simp add: cocoaTimestampToDate_Num)
  also have "\<dots> = newDate (Num (of_int ((k + 978307200) * 1000)))"
    by (simp only: s m)
  also have "\<dots> = Date ((k + 978307200) * 1000)"
    using assms(2) by (simp only: newDate_of_int) simp
  finally show ?thesis .
qed

lemma cocoaTimestampToDate_nanoseconds:
  assumes "1000000000000 < t" "t \<le> 9223372036854775808"
  shows "\<exists>y. cocoaTimestampToDate (Num t) = Date y
           \<and> \<bar>of_int y - (t / 1000000 + 978307200000)\<bar> < 2"
proof -
  define x1 where "x1 = t / 1000000000"
  define q where "q = to_double x1"
  define p where "p = to_double (q + 978307200)"
  define r where "r = to_double (p * 1000)"
  have x1: "1000 < x1" "x1 \<le> 9223372037"
    using assms by (simp_all add: x1_def)
  have "1 \<le> x1" "x1 \<le> 9223372037" using x1 by linarith+
  from to_double_within [OF this]
  have eq: "x1 - 9223372037 / 9007199254740992 \<le> q"
    "q \<le> x1 + 9223372037 / 9007199254740992"
    by (simp_all only: q_def)
  have qb: "999 \<le> q" "q \<le> 9223372038" using eq x1 by linarith+
  have "1 \<le> q + 978307200" "q + 978307200 \<le> 10300000000" using qb by linarith+
  from to_double_within [OF this]
  have ep: "(q + 978307200) - 10300000000 / 9007199254740992 \<le> p"
    "p \<le> (q + 978307200) + 10300000000 / 9007199254740992"
    by (simp_all only: p_def)
  have pb: "1 \<le> p" "p \<le> 10300000001" using ep qb by linarith+
  have "1 \<le> p * 1000" "p * 1000 \<le> 10300000001000" using pb by linarith+
  from to_double_within [OF this]
  have er: "p * 1000 - 10300000001000 / 9007199254740992 \<le> r"
    "r \<le> p * 1000 + 10300000001000 / 9007199254740992"
    by (simp_all only: r_def)
  have rb: "0 \<le> r" "r \<le> 8640000000000000" using er pb by linarith+
  have t: "t / 1000000 = x1 * 1000" by (simp add: x1_def)
  have close: "r - (x1 * 1000 + 978307200000) \<le> 1 / 100"
    "- (1 / 100) \<le> r - (x1 * 1000 + 978307200000)"
    using eq ep er x1 qb pb by linarith+
  have c: "cocoaTimestampToDate (Num t) = newDate (Num r)"
    using assms(1) by (simp add: cocoaTimestampToDate_Num r_def p_def q_def x1_def)
  have "newDate (Num r) = Date \<lfloor>r\<rfloor>"
    using rb by (simp add: truncate_towards_zero_def)
  moreover have "\<bar>of_int \<lfloor>r\<rfloor> - (t / 1000000 + 978307200000)\<bar> < 2"
  proof -
    have "of_int \<lfloor>r\<rfloor> \<le> r" "r < of_int \<lfloor>r\<rfloor> + 1" by linarith+
    with close show ?thesis unfolding t abs_less_iff by linarith
  qed
  ultimately show ?thesis using c by simp
qed

text \<open>
  C1. For every native timestamp \<open>t\<close>, \<open>cocoaTimestampToDate\<close> divides \<open>t\<close> by
  \<open>10^9\<close> exactly when \<open>t > 10^12\<close> and leaves it as seconds when \<open>t \<le> 10^12\<close>
  (the threshold itself counts as seconds); in both cases it adds the epoch offset of
  978307200 seconds and builds the date from the resulting milliseconds, each operation
  rounding as the language does. A whole number of seconds gives exactly the date that
  many seconds after the 2001 epoch; a number of nanoseconds up to \<open>2^63\<close> gives a date
  less than two milliseconds from the exact one.
\<close>

theorem cocoaTimestampToDate_threshold:
  "(1000000000000 < t \<longrightarrow>
      cocoaTimestampToDate (Num t) =
        newDate (Num (to_double (to_double (to_double (t / 1000000000) + 978307200) * 1000))))
   \<and> (t \<le> 1000000000000 \<longrightarrow>
      cocoaTimestampToDate (Num t) =
        newDate (Num (to_double (to_double (t + 978307200) * 1000))))
   \<and> cocoaTimestampToDate NaN = InvalidDate
   \<and> (k \<le> 1000000000000 \<and> \<bar>(k + 978307200) * 1000\<bar> \<le> 8640000000000000 \<longrightarrow>
      cocoaTimestampToDate (Num (of_int k)) = Date ((k + 978307200) * 1000))
   \<and> (1000000000000 < t \<and> t \<le> 9223372036854775808 \<longrightarrow>
      (\<exists>y. cocoaTimestampToDate (Num t) = Date y
         \<and> \<bar>of_int y - (t / 1000000 + 978307200000)\<bar> < 2))"
  using cocoaTimestampToDate_seconds [of k] cocoaTimestampToDate_nanoseconds [of t]
  by (simp add: cocoaTimestampToDate_Num) (simp add: cocoaTimestampToDate_def)

lemma nanoseconds_2023:
  "newDate (Num (to_double (to_double (to_double (721692800134000000 / 1000000000) + 978307200)
      * 1000))) = Date 1700000000133"
  by code_simp

lemma nanoseconds_2024:
  "newDate (Num (to_double (to_double (to_double (756864000000000000 / 1000000000) + 978307200)
      * 1000))) = Date 1735171200000"
  by code_simp

lemma seconds_at_threshold:
  "newDate (Num (to_double (to_double (1000000000000 + 978307200) * 1000))) =
     Date 1000978307200000"
  by code_simp

theorem cocoaTimestampToDate_threshold_witness:
  "cocoaTimestampToDate (Num 721692800134000000) = Date 1700000000133
   \<and> cocoaTimestampToDate (Num 756864000000000000) = Date 1735171200000
   \<and> cocoaTimestampToDate (Num 1000000000000) = Date 1000978307200000
   \<and> cocoaTimestampToDate (Num (of_int 0)) = Date 978307200000"
  using cocoaTimestampToDate_threshold [of 721692800134000000 0]
    cocoaTimestampToDate_threshold [of 756864000000000000 0]
    cocoaTimestampToDate_threshold [of 1000000000000 0]
    nanoseconds_2023 nanoseconds_2024 seconds_at_threshold
  by simp


text \<open>The roundings can move a time by a millisecond, in either direction: the first
  value below is 0.134 s past the second and gives 133 ms, the second is 128 ns short of
  a full second and gives that second.\<close>

lemma cocoaTimestampToDate_rounded:
  "cocoaTimestampToDate (Num 721692800134000000) = Date 1700000000133"
  "cocoaTimestampToDate (Num 700000000999999872) = Date 1678307201000"
  by code_simp+

lemma dateToCocoaTimestamp_Date:
  "dateToCocoaTimestamp (Date ms) =
     Num (to_double (to_double (to_double (of_int ms / 1000) - 978307200) * 1000000000))"
  by (simp add: dateToCocoaTimestamp_def COCOA_EPOCH_DIFF_def)

text \<open>
  C2 (as stated, refuted). One second after the 2001 epoch converts to the native value
  \<open>10^9\<close>, which is not above the threshold and is therefore read back as seconds: the
  round trip lands in the year 2032.
\<close>

theorem roundtrip_counterexample:
  "cocoaTimestampToDate (dateToCocoaTimestamp (Date 978307201000)) = Date 1978307200000
   \<and> \<not> \<bar>1978307200000 - 978307201000\<bar> \<le> (1000::int)"
proof -
  have "cocoaTimestampToDate (dateToCocoaTimestamp (Date 978307201000)) = Date 1978307200000"
    by code_simp
  then show ?thesis by simp
qed

text \<open>The values of the round trip at the two ends of the range, step by step.\<close>

lemma lower_chain:
  "to_double (978308200001 / 1000) = 8206643992993989 / 8388608"
  "to_double (8206643992993989 / 8388608 - 978307200) = 8388616389 / 8388608"
  "to_double (8388616389 / 8388608 * 1000000000) = 2048002048095703 / 2048"
  by code_simp+

lemma upper_chain:
  "to_double (8640000000000000 / 1000) = 8640000000000"
  "to_double (8640000000000 - 978307200) = 8639021692800"
  "to_double (8639021692800 * 1000000000) = 8639021692800000327680"
  "to_double (8639021692800000327680 / 1000000000) = 8639021692800"
  "to_double (8639021692800 + 978307200) = 8640000000000"
  "to_double (8640000000000 * 1000) = 8640000000000000"
  by code_simp+

lemma to_double_le_const:
  assumes "0 < x" "x \<le> c" "to_double c = c'"
  shows "to_double x \<le> c'"
  using to_double_mono [OF assms(1,2)] assms(3) by simp

lemma to_double_ge_const:
  assumes "0 < c" "c \<le> x" "to_double c = c'"
  shows "c' \<le> to_double x"
  using to_double_mono [OF assms(1,2)] assms(3) by simp

text \<open>
  C2 (amended). For every wall-clock time \<open>x\<close> later than 1000 seconds after the 2001
  epoch (up to the last valid date), converting \<open>x\<close> to a native timestamp and back
  yields a valid time within one second of \<open>x\<close>.
\<close>

theorem roundtrip_after_threshold:
  assumes "978308200000 < ms" "ms \<le> 8640000000000000"
  shows "\<exists>y. cocoaTimestampToDate (dateToCocoaTimestamp (Date ms)) = Date y \<and> \<bar>y - ms\<bar> \<le> 1000"
proof -
  define a1 :: rat where "a1 = of_int ms / 1000"
  define s1 where "s1 = to_double a1"
  define s2 where "s2 = to_double (s1 - 978307200)"
  define n where "n = to_double (s2 * 1000000000)"
  define t1 where "t1 = to_double (n / 1000000000)"
  define t2 where "t2 = to_double (t1 + 978307200)"
  define r where "r = to_double (t2 * 1000)"
  have "978308200001 \<le> ms" using assms(1) by simp
  then have "(of_int 978308200001 :: rat) \<le> of_int ms" by (simp only: of_int_le_iff)
  then have a1_lo: "978308200001 / 1000 \<le> a1" by (simp add: a1_def)
  have "(of_int ms :: rat) \<le> of_int 8640000000000000" using assms(2) by (simp only: of_int_le_iff)
  then have a1_hi: "a1 \<le> 8640000000000000 / 1000" by (simp add: a1_def)
  have a1_pos: "0 < a1" using a1_lo by linarith
  \<comment> \<open>the rounding is monotone: each value lies between the values at the two ends\<close>
  have s1_lo: "8206643992993989 / 8388608 \<le> s1"
    unfolding s1_def by (rule to_double_ge_const [OF _ a1_lo lower_chain(1)]) simp
  have s1_hi: "s1 \<le> 8640000000000"
    unfolding s1_def by (rule to_double_le_const [OF a1_pos a1_hi upper_chain(1)])
  have d2_lo: "8206643992993989 / 8388608 - 978307200 \<le> s1 - 978307200"
    using s1_lo by linarith
  have d2_hi: "s1 - 978307200 \<le> 8640000000000 - 978307200" using s1_hi by linarith
  have d2_pos: "0 < s1 - 978307200" using s1_lo by linarith
  have s2_lo: "8388616389 / 8388608 \<le> s2"
    unfolding s2_def by (rule to_double_ge_const [OF _ d2_lo lower_chain(2)]) simp
  have s2_hi: "s2 \<le> 8639021692800"
    unfolding s2_def by (rule to_double_le_const [OF d2_pos d2_hi upper_chain(2)])
  have d3_lo: "8388616389 / 8388608 * 1000000000 \<le> s2 * 1000000000" using s2_lo by linarith
  have d3_hi: "s2 * 1000000000 \<le> 8639021692800 * 1000000000" using s2_hi by linarith
  have d3_pos: "0 < s2 * 1000000000" using s2_lo by linarith
  have n_lo: "2048002048095703 / 2048 \<le> n"
    unfolding n_def by (rule to_double_ge_const [OF _ d3_lo lower_chain(3)]) simp
  have n_hi: "n \<le> 8639021692800000327680"
    unfolding n_def by (rule to_double_le_const [OF d3_pos d3_hi upper_chain(3)])
  have d4_hi: "n / 1000000000 \<le> 8639021692800000327680 / 1000000000" using n_hi by linarith
  have d4_pos: "0 < n / 1000000000" "1 \<le> n / 1000000000" using n_lo by linarith+
  have t1_hi: "t1 \<le> 8639021692800"
    unfolding t1_def by (rule to_double_le_const [OF d4_pos(1) d4_hi upper_chain(4)])
  have t1_lo: "n / 1000000000 - 8639021692801 / 9007199254740992 \<le> t1"
    unfolding t1_def using d4_hi by (intro to_double_within(1) d4_pos) linarith
  have d5_hi: "t1 + 978307200 \<le> 8639021692800 + 978307200" using t1_hi by linarith
  have d5_pos: "0 < t1 + 978307200" "1 \<le> t1 + 978307200" using t1_lo d4_pos by linarith+
  have t2_hi: "t2 \<le> 8640000000000"
    unfolding t2_def by (rule to_double_le_const [OF d5_pos(1) d5_hi upper_chain(5)])
  have t2_lo: "t1 + 978307200 - 8640000000000 / 9007199254740992 \<le> t2"
    unfolding t2_def using d5_hi by (intro to_double_within(1) d5_pos) linarith
  have d6_hi: "t2 * 1000 \<le> 8640000000000 * 1000" using t2_hi by linarith
  have d6_pos: "0 < t2 * 1000" "1 \<le> t2 * 1000" using t2_lo d5_pos by linarith+
  have r_hi: "r \<le> 8640000000000000"
    unfolding r_def by (rule to_double_le_const [OF d6_pos(1) d6_hi upper_chain(6)])
  \<comment> \<open>each rounding is off by at most \<open>2^-53\<close> of the bound on its argument\<close>
  have a1_ge1: "1 \<le> a1" using a1_lo by linarith
  have e1: "a1 - 8640000000000000 / 1000 / 9007199254740992 \<le> s1"
    "s1 \<le> a1 + 8640000000000000 / 1000 / 9007199254740992"
    unfolding s1_def by (rule to_double_within [OF a1_ge1 a1_hi])+
  have d2_ge1: "1 \<le> s1 - 978307200" using s1_lo by linarith
  have e2: "s1 - 978307200 - (8640000000000 - 978307200) / 9007199254740992 \<le> s2"
    "s2 \<le> s1 - 978307200 + (8640000000000 - 978307200) / 9007199254740992"
    unfolding s2_def by (rule to_double_within [OF d2_ge1 d2_hi])+
  have d3_ge1: "1 \<le> s2 * 1000000000" using s2_lo by linarith
  have e3: "s2 * 1000000000 - 8639021692800 * 1000000000 / 9007199254740992 \<le> n"
    "n \<le> s2 * 1000000000 + 8639021692800 * 1000000000 / 9007199254740992"
    unfolding n_def by (rule to_double_within [OF d3_ge1 d3_hi])+
  have e4: "n / 1000000000 - 8639021692800000327680 / 1000000000 / 9007199254740992 \<le> t1"
    "t1 \<le> n / 1000000000 + 8639021692800000327680 / 1000000000 / 9007199254740992"
    unfolding t1_def by (rule to_double_within [OF d4_pos(2) d4_hi])+
  have e5: "t1 + 978307200 - (8639021692800 + 978307200) / 9007199254740992 \<le> t2"
    "t2 \<le> t1 + 978307200 + (8639021692800 + 978307200) / 9007199254740992"
    unfolding t2_def by (rule to_double_within [OF d5_pos(2) d5_hi])+
  have e6: "t2 * 1000 - 8640000000000 * 1000 / 9007199254740992 \<le> r"
    "r \<le> t2 * 1000 + 8640000000000 * 1000 / 9007199254740992"
    unfolding r_def by (rule to_double_within [OF d6_pos(2) d6_hi])+
  have ms: "(of_int ms :: rat) = a1 * 1000" by (simp add: a1_def)
  have c: "8640000000000000 / 1000 / 9007199254740992 \<le> (1 / 1000 :: rat)"
    "(8640000000000 - 978307200) / 9007199254740992 \<le> (1 / 1000 :: rat)"
    "8639021692800 * 1000000000 / 9007199254740992 \<le> (1000000 :: rat)"
    "8639021692800000327680 / 1000000000 / 9007199254740992 \<le> (1 / 1000 :: rat)"
    "(8639021692800 + 978307200) / 9007199254740992 \<le> (1 / 1000 :: rat)"
    "8640000000000 * 1000 / 9007199254740992 \<le> (1 :: rat)"
    by simp_all
  have f1: "a1 - 1 / 1000 \<le> s1" "s1 \<le> a1 + 1 / 1000" using e1 c(1) by linarith+
  have f2: "s1 - 978307200 - 1 / 1000 \<le> s2" "s2 \<le> s1 - 978307200 + 1 / 1000"
    using e2 c(2) by linarith+
  have f3: "s2 * 1000000000 - 1000000 \<le> n" "n \<le> s2 * 1000000000 + 1000000"
    using e3 c(3) by linarith+
  have f4: "n / 1000000000 - 1 / 1000 \<le> t1" "t1 \<le> n / 1000000000 + 1 / 1000"
    using e4 c(4) by linarith+
  have f5: "t1 + 978307200 - 1 / 1000 \<le> t2" "t2 \<le> t1 + 978307200 + 1 / 1000"
    using e5 c(5) by linarith+
  have f6: "t2 * 1000 - 1 \<le> r" "r \<le> t2 * 1000 + 1" using e6 c(6) by linarith+
  have close: "of_int ms - 7 \<le> r" "r \<le> of_int ms + 7"
    unfolding ms using f1 f2 f3 f4 f5 f6 by linarith+
  have r_pos: "0 \<le> r" using close(1) assms(1) by linarith
  have "1000000000000 < n" using n_lo by linarith
  then have "cocoaTimestampToDate (dateToCocoaTimestamp (Date ms)) = newDate (Num r)"
    by (simp add: dateToCocoaTimestamp_Date cocoaTimestampToDate_Num
        r_def t2_def t1_def n_def s2_def s1_def a1_def)
  also have "\<dots> = Date \<lfloor>r\<rfloor>"
    using r_pos r_hi by (simp add: truncate_towards_zero_def)
  finally have rt: "cocoaTimestampToDate (dateToCocoaTimestamp (Date ms)) = Date \<lfloor>r\<rfloor>" .
  have "(of_int (ms - 7) :: rat) \<le> r" using close(1) by simp
  then have lo: "ms - 7 \<le> \<lfloor>r\<rfloor>" by (simp only: le_floor_iff)
  have "r < of_int (ms + 8)" using close(2) by simp
  then have hi: "\<lfloor>r\<rfloor> < ms + 8" by (simp only: floor_less_iff)
  from lo hi have "\<bar>\<lfloor>r\<rfloor> - ms\<bar> \<le> 1000" by linarith
  with rt show ?thesis by blast
qed

text \<open>The round trip need not return \<open>x\<close> itself: the roundings can cost a
  millisecond.\<close>

lemma roundtrip_2023:
  "cocoaTimestampToDate (dateToCocoaTimestamp (Date 1700000000070)) = Date 1700000000069"
  by code_simp

theorem roundtrip_after_threshold_witness:
  "\<exists>y. cocoaTimestampToDate (dateToCocoaTimestamp (Date 1700000000070)) = Date y
       \<and> \<bar>y - 1700000000070\<bar> \<le> 1000"
  using roundtrip_after_threshold [of 1700000000070] by simp


text \<open>
  C5 (as stated, refuted). A duration of \<open>1e-6\<close> hours is about 3.6 ms; the date
  constructor drops the fraction of a millisecond that the direct computation keeps, so
  the two native values differ.
\<close>

theorem hoursAgo_counterexample:
  "hoursAgoToCocoaTimestamp 1700000000000 (Num (to_double (1 / 1000000))) =
     Num 721692799996399872
   \<and> fromWallClock_now_minus_hours 1700000000000 (Num (to_double (1 / 1000000))) =
     Num 721692799996000000
   \<and> hoursAgoToCocoaTimestamp 1700000000000 (Num (to_double (1 / 1000000))) \<noteq>
       fromWallClock_now_minus_hours 1700000000000 (Num (to_double (1 / 1000000)))"
proof -
  have "hoursAgoToCocoaTimestamp 1700000000000 (Num (to_double (1 / 1000000))) =
     Num 721692799996399872"
    by code_simp
  moreover have "fromWallClock_now_minus_hours 1700000000000 (Num (to_double (1 / 1000000))) =
     Num 721692799996000000"
    by code_simp
  ultimately show ?thesis by simp
qed

lemma via_date_whole_ms:
  assumes "cutoff = Num (of_int k)" and "\<bar>k\<bar> \<le> 8640000000000000"
  shows "dateToCocoaTimestamp (newDate cutoff) =
         js_mul (js_sub (js_div cutoff (Num 1000)) COCOA_EPOCH_DIFF) (Num 1000000000)"
  using assms unfolding assms(1) newDate_of_int
  by (simp add: dateToCocoaTimestamp_def)

text \<open>
  A double is a whole number times a power of two. If a whole multiple of it by
  \<open>2^s\<close> times an odd number is a whole number below \<open>2^53\<close>, the products that the
  code forms on the way are doubles themselves, and nothing is rounded.
\<close>

lemma pow2_nat: "0 \<le> n \<Longrightarrow> (2::rat) powi n = of_int (2 ^ nat n)"
  by (simp add: power_int_def)

lemma double_exponent_dyadic:
  assumes "z \<noteq> 0" "\<bar>z\<bar> < 9007199254740992" "- 1074 \<le> t"
  shows "double_exponent (of_int z * 2 powi t) \<le> t"
proof -
  let ?x = "(of_int z :: rat) * 2 powi t"
  have ax: "\<bar>?x\<bar> = of_int \<bar>z\<bar> * 2 powi t"
    by (simp add: abs_mult)
  have pos: "0 < \<bar>?x\<bar>" using assms(1) by simp
  have "(of_int \<bar>z\<bar> :: rat) < of_int 9007199254740992"
    using assms(2) by (simp only: of_int_less_iff)
  then have "(of_int \<bar>z\<bar> :: rat) < 2 powi 53" by simp
  then have "\<bar>?x\<bar> < 2 powi 53 * 2 powi t"
    unfolding ax by (rule mult_strict_right_mono) (rule pow2_pos)
  then have "\<bar>?x\<bar> < 2 powi (53 + t)" by (simp only: pow2_add)
  from ilog2_less [OF pos this] have "ilog2 \<bar>?x\<bar> - 52 \<le> t" by simp
  with assms(3) show ?thesis by (simp add: double_exponent_def)
qed

lemma to_double_dyadic:
  assumes "\<bar>z\<bar> < 9007199254740992" "- 1074 \<le> t"
  shows "to_double (of_int z * 2 powi t) = of_int z * 2 powi t"
proof (cases "z = 0")
  case True
  then show ?thesis by (simp add: to_double_def)
next
  case False
  let ?x = "(of_int z :: rat) * 2 powi t"
  let ?e = "double_exponent ?x"
  have ne: "?x \<noteq> 0" using False by simp
  have e: "?e \<le> t" by (rule double_exponent_dyadic [OF False assms])
  have "?x / 2 powi ?e = of_int z * (2 powi t / 2 powi ?e)" by simp
  also have "\<dots> = of_int z * 2 powi (t - ?e)" by (simp only: pow2_diff)
  also have "\<dots> = of_int z * of_int (2 ^ nat (t - ?e))"
    using e by (simp only: pow2_nat)
  also have "\<dots> = of_int (z * 2 ^ nat (t - ?e))" by simp
  finally have q: "?x / 2 powi ?e = of_int (z * 2 ^ nat (t - ?e))" .
  have "to_double ?x = of_int (round_half_even (?x / 2 powi ?e)) * 2 powi ?e"
    by (rule to_double_eq [OF ne])
  also have "\<dots> = of_int (z * 2 ^ nat (t - ?e)) * 2 powi ?e"
    by (simp only: q round_half_even_of_int)
  also have "\<dots> = ?x / 2 powi ?e * 2 powi ?e" by (simp only: q)
  also have "\<dots> = ?x" by simp
  finally show ?thesis .
qed

lemma double_is_dyadic:
  assumes "to_double h = h"
  shows "\<exists>M E. h = of_int M * 2 powi E"
proof (cases "h = 0")
  case True
  then have "h = of_int 0 * 2 powi 0" by simp
  then show ?thesis by blast
next
  case False
  from to_double_eq [OF False] assms
  have "h = of_int (round_half_even (h / 2 powi double_exponent h)) * 2 powi double_exponent h"
    by simp
  then show ?thesis by blast
qed

lemma dyadic_whole_multiple:
  fixes h :: rat
  assumes "h = of_int M * 2 powi E" "odd c" "h * 2 ^ s * of_int c = of_int m"
  shows "\<exists>z. h * 2 ^ s = of_int z \<and> z * c = m"
proof -
  have "\<exists>z. h * 2 ^ s = of_int z"
  proof (cases "0 \<le> E + int s")
    case True
    have "h * 2 ^ s = of_int M * (2 powi E * 2 powi (int s))"
      by (simp add: assms(1))
    also have "\<dots> = of_int M * 2 powi (E + int s)" by (simp only: pow2_add)
    also have "\<dots> = of_int M * of_int (2 ^ nat (E + int s))"
      using True by (simp only: pow2_nat)
    also have "\<dots> = of_int (M * 2 ^ nat (E + int s))" by simp
    finally show ?thesis by blast
  next
    case False
    define n where "n = nat (- (E + int s))"
    have En: "E + int s = - int n" using False by (simp add: n_def)
    have "h * 2 ^ s = of_int M * (2 powi E * 2 powi (int s))"
      by (simp add: assms(1))
    also have "\<dots> = of_int M * 2 powi (E + int s)" by (simp only: pow2_add)
    also have "\<dots> = of_int M / 2 ^ n"
      by (simp add: En power_int_minus field_simps)
    finally have hs: "h * 2 ^ s = of_int M / 2 ^ n" .
    with assms(3) have "(of_int M :: rat) / 2 ^ n * of_int c = of_int m" by simp
    then have "(of_int M :: rat) * of_int c = of_int m * 2 ^ n"
      by (simp add: field_simps)
    then have "(of_int (M * c) :: rat) = of_int (m * 2 ^ n)" by simp
    then have "M * c = m * 2 ^ n" by (simp only: of_int_eq_iff)
    then have "2 ^ n dvd M * c" by simp
    moreover have "coprime ((2::int) ^ n) c" using assms(2) by simp
    ultimately have "2 ^ n dvd M" by (simp add: coprime_dvd_mult_left_iff)
    then obtain z where "M = 2 ^ n * z" by (rule dvdE)
    with hs have "h * 2 ^ s = of_int z" by simp
    then show ?thesis by blast
  qed
  then obtain z where z: "h * 2 ^ s = of_int z" by blast
  with assms(3) have "(of_int (z * c) :: rat) = of_int m" by simp
  then have "z * c = m" by (simp only: of_int_eq_iff)
  with z show ?thesis by blast
qed

lemma whole_of_abs_bound:
  assumes "(x::rat) = of_int m" "\<bar>x\<bar> < 9007199254740992"
  shows "\<bar>m\<bar> < 9007199254740992"
proof -
  have "(of_int \<bar>m\<bar> :: rat) < of_int 9007199254740992"
    using assms by simp
  then show ?thesis by (simp only: of_int_less_iff)
qed

lemma hours_cutoff_exact:
  assumes "to_double h = h" "h * 3600000 = of_int m" "\<bar>m\<bar> < 9007199254740992"
    "\<bar>now - m\<bar> < 9007199254740992"
  shows "js_sub (Num (of_int now))
      (js_mul (js_mul (js_mul (Num h) (Num 60)) (Num 60)) (Num 1000)) = Num (of_int (now - m))"
proof -
  from double_is_dyadic [OF assms(1)] obtain M E where h: "h = of_int M * 2 powi E" by blast
  have "h * 2 ^ 7 * of_int 28125 = of_int m" using assms(2) by simp
  from dyadic_whole_multiple [OF h _ this] obtain z where z: "h * 2 ^ 7 = of_int z" "z * 28125 = m"
    by auto
  have hz: "h = of_int z / 128" using z(1) by simp
  have b: "\<bar>15 * z\<bar> < 9007199254740992" "\<bar>225 * z\<bar> < 9007199254740992"
    using z(2) assms(3) by (simp_all add: abs_mult) 
  have 1: "to_double (h * 60) = h * 60"
  proof -
    have e: "h * 60 = of_int (15 * z) * 2 powi (- 5)"
      unfolding hz by (simp add: power_int_minus)
    show ?thesis unfolding e by (rule to_double_dyadic [OF b(1)]) simp
  qed
  have 2: "to_double (h * 60 * 60) = h * 60 * 60"
  proof -
    have e: "h * 60 * 60 = of_int (225 * z) * 2 powi (- 3)"
      unfolding hz by (simp add: power_int_minus)
    show ?thesis unfolding e by (rule to_double_dyadic [OF b(2)]) simp
  qed
  have 3: "to_double (h * 60 * 60 * 1000) = of_int m"
  proof -
    have "h * 60 * 60 * 1000 = of_int m" using assms(2) by simp
    with to_double_of_int [OF assms(3)] show ?thesis by simp
  qed
  have 4: "to_double (of_int now - of_int m) = of_int (now - m)"
    using to_double_of_int [OF assms(4)] by simp
  show ?thesis
    by (simp only: js_mul.simps js_sub.simps 1 2 3 4)
qed

lemma days_cutoff_exact:
  assumes "to_double d = d" "d * 86400000 = of_int m" "\<bar>m\<bar> < 9007199254740992"
    "\<bar>now - m\<bar> < 9007199254740992"
  shows "js_sub (Num (of_int now))
      (js_mul (js_mul (js_mul (js_mul (Num d) (Num 24)) (Num 60)) (Num 60)) (Num 1000)) =
      Num (of_int (now - m))"
proof -
  from double_is_dyadic [OF assms(1)] obtain M E where d: "d = of_int M * 2 powi E" by blast
  have "d * 2 ^ 10 * of_int 84375 = of_int m" using assms(2) by simp
  from dyadic_whole_multiple [OF d _ this] obtain z where z: "d * 2 ^ 10 = of_int z" "z * 84375 = m"
    by auto
  have dz: "d = of_int z / 1024" using z(1) by simp
  have b: "\<bar>3 * z\<bar> < 9007199254740992" "\<bar>45 * z\<bar> < 9007199254740992"
    "\<bar>675 * z\<bar> < 9007199254740992"
    using z(2) assms(3) by (simp_all add: abs_mult)
  have 1: "to_double (d * 24) = d * 24"
  proof -
    have e: "d * 24 = of_int (3 * z) * 2 powi (- 7)"
      unfolding dz by (simp add: power_int_minus)
    show ?thesis unfolding e by (rule to_double_dyadic [OF b(1)]) simp
  qed
  have 2: "to_double (d * 24 * 60) = d * 24 * 60"
  proof -
    have e: "d * 24 * 60 = of_int (45 * z) * 2 powi (- 5)"
      unfolding dz by (simp add: power_int_minus)
    show ?thesis unfolding e by (rule to_double_dyadic [OF b(2)]) simp
  qed
  have 3: "to_double (d * 24 * 60 * 60) = d * 24 * 60 * 60"
  proof -
    have e: "d * 24 * 60 * 60 = of_int (675 * z) * 2 powi (- 3)"
      unfolding dz by (simp add: power_int_minus)
    show ?thesis unfolding e by (rule to_double_dyadic [OF b(3)]) simp
  qed
  have 4: "to_double (d * 24 * 60 * 60 * 1000) = of_int m"
  proof -
    have "d * 24 * 60 * 60 * 1000 = of_int m" using assms(2) by simp
    with to_double_of_int [OF assms(3)] show ?thesis by simp
  qed
  have 5: "to_double (of_int now - of_int m) = of_int (now - m)"
    using to_double_of_int [OF assms(4)] by simp
  show ?thesis
    by (simp only: js_mul.simps js_sub.simps 1 2 3 4 5)
qed

text \<open>
  C5 (amended). Whenever the current time minus the duration is a whole number of
  milliseconds of magnitude at most \<open>8.64e15\<close> (so for every whole number of hours or
  days within the range of dates), \<open>hoursAgoToCocoaTimestamp\<close> and
  \<open>daysAgoToCocoaTimestamp\<close> equal \<open>dateToCocoaTimestamp\<close> applied to the date of the
  current time minus the duration. Here the duration is a double (\<open>to_double h = h\<close>)
  of less than \<open>2^53\<close> milliseconds, so that the code computes the cut-off without
  rounding. More generally (third and fourth part) the two are equal whenever the
  cut-off that the code computes, with its rounding, is such a whole number.
\<close>

theorem agoToCocoaTimestamp_whole_ms:
  "(to_double h = h \<and> of_int now - h * 3600000 = of_int k \<and> \<bar>k\<bar> \<le> 8640000000000000
      \<and> \<bar>h\<bar> * 3600000 < 9007199254740992 \<longrightarrow>
      hoursAgoToCocoaTimestamp now (Num h) = fromWallClock_now_minus_hours now (Num h))
   \<and> (to_double d = d \<and> of_int now - d * 86400000 = of_int k' \<and> \<bar>k'\<bar> \<le> 8640000000000000
      \<and> \<bar>d\<bar> * 86400000 < 9007199254740992 \<longrightarrow>
      daysAgoToCocoaTimestamp now (Num d) = fromWallClock_now_minus_days now (Num d))
   \<and> (js_sub (Num (of_int now)) (js_mul (js_mul (js_mul (Num h) (Num 60)) (Num 60)) (Num 1000)) =
      Num (of_int k) \<and> \<bar>k\<bar> \<le> 8640000000000000 \<longrightarrow>
      hoursAgoToCocoaTimestamp now (Num h) = fromWallClock_now_minus_hours now (Num h))
   \<and> (js_sub (Num (of_int now))
        (js_mul (js_mul (js_mul (js_mul (Num d) (Num 24)) (Num 60)) (Num 60)) (Num 1000)) =
      Num (of_int k') \<and> \<bar>k'\<bar> \<le> 8640000000000000 \<longrightarrow>
      daysAgoToCocoaTimestamp now (Num d) = fromWallClock_now_minus_days now (Num d))"
proof (intro conjI impI)
  assume a: "to_double h = h \<and> of_int now - h * 3600000 = of_int k \<and> \<bar>k\<bar> \<le> 8640000000000000
      \<and> \<bar>h\<bar> * 3600000 < 9007199254740992"
  then have m: "h * 3600000 = of_int (now - k)" by (simp add: algebra_simps)
  from a have "\<bar>h * 3600000\<bar> < 9007199254740992" by (simp add: abs_mult)
  from whole_of_abs_bound [OF m this] have b: "\<bar>now - k\<bar> < 9007199254740992" .
  from a have b': "\<bar>now - (now - k)\<bar> < 9007199254740992" by simp
  from a have d: "to_double h = h" and k: "\<bar>k\<bar> \<le> 8640000000000000" by simp_all
  have c: "js_sub (Num (of_int now))
      (js_mul (js_mul (js_mul (Num h) (Num 60)) (Num 60)) (Num 1000)) = Num (of_int k)"
    using hours_cutoff_exact [OF d m b b'] by simp
  from via_date_whole_ms [OF c k]
  show "hoursAgoToCocoaTimestamp now (Num h) = fromWallClock_now_minus_hours now (Num h)"
    by (simp only: hoursAgoToCocoaTimestamp_def fromWallClock_now_minus_hours_def Let_def)
next
  assume a: "to_double d = d \<and> of_int now - d * 86400000 = of_int k' \<and> \<bar>k'\<bar> \<le> 8640000000000000
      \<and> \<bar>d\<bar> * 86400000 < 9007199254740992"
  then have m: "d * 86400000 = of_int (now - k')" by (simp add: algebra_simps)
  from a have "\<bar>d * 86400000\<bar> < 9007199254740992" by (simp add: abs_mult)
  from whole_of_abs_bound [OF m this] have b: "\<bar>now - k'\<bar> < 9007199254740992" .
  from a have b': "\<bar>now - (now - k')\<bar> < 9007199254740992" by simp
  from a have d: "to_double d = d" and k: "\<bar>k'\<bar> \<le> 8640000000000000" by simp_all
  have c: "js_sub (Num (of_int now))
      (js_mul (js_mul (js_mul (js_mul (Num d) (Num 24)) (Num 60)) (Num 60)) (Num 1000)) =
      Num (of_int k')"
    using days_cutoff_exact [OF d m b b'] by simp
  from via_date_whole_ms [OF c k]
  show "daysAgoToCocoaTimestamp now (Num d) = fromWallClock_now_minus_days now (Num d)"
    by (simp only: daysAgoToCocoaTimestamp_def fromWallClock_now_minus_days_def Let_def)
next
  assume a: "js_sub (Num (of_int now))
      (js_mul (js_mul (js_mul (Num h) (Num 60)) (Num 60)) (Num 1000)) = Num (of_int k)
      \<and> \<bar>k\<bar> \<le> 8640000000000000"
  then have c: "js_sub (Num (of_int now))
      (js_mul (js_mul (js_mul (Num h) (Num 60)) (Num 60)) (Num 1000)) = Num (of_int k)"
    and k: "\<bar>k\<bar> \<le> 8640000000000000" by simp_all
  from via_date_whole_ms [OF c k]
  show "hoursAgoToCocoaTimestamp now (Num h) = fromWallClock_now_minus_hours now (Num h)"
    by (simp only: hoursAgoToCocoaTimestamp_def fromWallClock_now_minus_hours_def Let_def)
next
  assume a: "js_sub (Num (of_int now))
      (js_mul (js_mul (js_mul (js_mul (Num d) (Num 24)) (Num 60)) (Num 60)) (Num 1000)) =
      Num (of_int k') \<and> \<bar>k'\<bar> \<le> 8640000000000000"
  then have c: "js_sub (Num (of_int now))
      (js_mul (js_mul (js_mul (js_mul (Num d) (Num 24)) (Num 60)) (Num 60)) (Num 1000)) =
      Num (of_int k')"
    and k: "\<bar>k'\<bar> \<le> 8640000000000000" by simp_all
  from via_date_whole_ms [OF c k]
  show "daysAgoToCocoaTimestamp now (Num d) = fromWallClock_now_minus_days now (Num d)"
    by (simp only: daysAgoToCocoaTimestamp_def fromWallClock_now_minus_days_def Let_def)
qed

lemma doubles_of_witness:
  "to_double (3 / 2) = 3 / 2"
  "to_double 7 = 7"
  by code_simp+

lemma tiny_hours_cutoff:
  "js_sub (Num (of_int 1700000000000))
     (js_mul (js_mul (js_mul (Num (to_double (1 / 100000000000))) (Num 60)) (Num 60)) (Num 1000)) =
   Num (of_int 1700000000000)"
  by code_simp

theorem agoToCocoaTimestamp_whole_ms_witness:
  "hoursAgoToCocoaTimestamp 1700000000000 (Num (3 / 2)) =
     fromWallClock_now_minus_hours 1700000000000 (Num (3 / 2))
   \<and> daysAgoToCocoaTimestamp 1700000000000 (Num 7) =
     fromWallClock_now_minus_days 1700000000000 (Num 7)
   \<and> hoursAgoToCocoaTimestamp 1700000000000 (Num (to_double (1 / 100000000000))) =
     fromWallClock_now_minus_hours 1700000000000 (Num (to_double (1 / 100000000000)))"
  using agoToCocoaTimestamp_whole_ms [of "3 / 2" 1700000000000 1699994600000 7 1699395200000]
    agoToCocoaTimestamp_whole_ms [of "to_double (1 / 100000000000)" 1700000000000
      1700000000000]
    doubles_of_witness tiny_hours_cutoff
  by simp


text \<open>
  A value of type \<open>number\<close> is a double. For a rational duration that is not one the
  first product is rounded, and the two values can differ although the exact cut-off is
  a whole number of milliseconds.
\<close>

lemma hoursAgo_not_a_double:
  "to_double (1699999999999 / 3600000) \<noteq> 1699999999999 / 3600000"
  "hoursAgoToCocoaTimestamp 1700000000000 (Num (1699999999999 / 3600000)) =
     Num (- 978307199998999680)"
  "fromWallClock_now_minus_hours 1700000000000 (Num (1699999999999 / 3600000)) =
     Num (- 978307199998999936)"
  by code_simp+

section \<open>Parameter normalisation\<close>

text \<open>
  C3. For every value, default and maximum: an undefined or null value gives the
  default; a value \<open>\<le> 0\<close> gives the default; otherwise a value above the maximum gives
  the maximum; otherwise \<open>normalizeLimit\<close> gives the floor of the value and
  \<open>normalizeHours\<close> and \<open>normalizeDays\<close> give the value itself. The cases are tried in
  this order, and the functions return a number on every input (no error value).
\<close>

theorem normalize_cases:
  "normalizeLimit Undefined d m = d \<and> normalizeLimit Null d m = d
   \<and> normalizeHours Undefined d m = d \<and> normalizeHours Null d m = d
   \<and> normalizeDays Undefined d m = d \<and> normalizeDays Null d m = d
   \<and> (js_le v (Num 0) \<longrightarrow>
        normalizeLimit (Given v) d m = d \<and> normalizeHours (Given v) d m = d
        \<and> normalizeDays (Given v) d m = d)
   \<and> (\<not> js_le v (Num 0) \<and> js_gt v m \<longrightarrow>
        normalizeLimit (Given v) d m = m \<and> normalizeHours (Given v) d m = m
        \<and> normalizeDays (Given v) d m = m)
   \<and> (\<not> js_le v (Num 0) \<and> \<not> js_gt v m \<longrightarrow>
        normalizeLimit (Given v) d m = Math_floor v \<and> normalizeHours (Given v) d m = v
        \<and> normalizeDays (Given v) d m = v)"
  by (simp add: normalizeLimit_def normalizeHours_def normalizeDays_def)

lemma Math_floor_fraction:
  "of_int k \<le> a \<Longrightarrow> a < of_int k + 1 \<Longrightarrow> Math_floor (Num a) = Num (of_int k)"
  by (simp add: floor_unique)

theorem normalize_cases_witness:
  "normalizeLimit (Given (Num (-5))) (Num 50) (Num 100) = Num 50
   \<and> normalizeLimit (Given (Num 200)) (Num 50) (Num 100) = Num 100
   \<and> normalizeLimit (Given (Num (307 / 10))) (Num 50) (Num 100) = Num 30
   \<and> normalizeHours (Given (Num (307 / 10))) (Num 24) (Num 168) = Num (307 / 10)"
proof -
  have "Math_floor (Num (307 / 10)) = Num (of_int 30)"
    by (rule Math_floor_fraction) simp_all
  then show ?thesis
    using normalize_cases [of "Num 50" "Num 100" "Num (-5)"]
      normalize_cases [of "Num 50" "Num 100" "Num 200"]
      normalize_cases [of "Num 50" "Num 100" "Num (307 / 10)"]
      normalize_cases [of "Num 24" "Num 168" "Num (307 / 10)"]
    by simp
qed


section \<open>Contact normalisation\<close>

lemma formatPhoneNumber_examples:
  "formatPhoneNumber ''5551234567'' = ''+15551234567''"
  "formatPhoneNumber ''555-123-4567'' = ''+15551234567''"
  "formatPhoneNumber ''(555) 123-4567'' = ''+15551234567''"
  "formatPhoneNumber ''15551234567'' = ''+15551234567''"
  "formatPhoneNumber ''+442071234567'' = ''+442071234567''"
  "formatPhoneNumber ''john@example.com'' = ''john@example.com''"
  "formatPhoneNumber ''12345'' = ''12345''"
  by (simp_all add: formatPhoneNumber_def is_digit_def startsWith_def)

text \<open>
  C4. The code departs from the specified normalisation. An e-mail address with a \<open>+\<close> tag
  does not pass through unaltered: the pattern \<open>[^\d+]\<close> keeps every \<open>+\<close>, not only a
  leading one, the cleaned string \<open>+\<close> counts as already \<open>+\<close>-prefixed, and it is
  returned in place of the address. The length tests count the kept \<open>+\<close> as a digit:
  a \<open>+\<close>-prefixed number of nine digits is taken for ten digits and prefixed with
  \<open>+1\<close> instead of being returned as it is.
\<close>

theorem formatPhoneNumber_plus_tag_address:
  "formatPhoneNumber ''test+tag@gmail.com'' = ''+''
   \<and> formatPhoneNumber ''test+tag@gmail.com'' \<noteq> ''test+tag@gmail.com''
   \<and> formatPhoneNumber ''+298123456'' = ''+1+298123456''
   \<and> formatPhoneNumber ''+298123456'' \<noteq> ''+298123456''"
  by (simp add: formatPhoneNumber_def is_digit_def startsWith_def)

text \<open>
  The normalised contact is bound to the statements between two \<open>%\<close>: for such an
  address the pattern is \<open>%+%\<close>, which selects every handle that has a \<open>+\<close>. On the
  small store the conversation with the address is the conversation with a phone
  number.
\<close>

lemma getConversation_plus_tag_address:
  "snd (getConversation_statement 1730000000000 ''test+tag@gmail.com'' (Num 3650) (Num 10)) =
     [PNumber (Num 436332800000000000), PString ''%test+tag@gmail.com%'', PString ''+'',
      PString ''%+%'', PNumber (Num 10)]"
  "getConversation (\<lambda>d. ''date'') 1730000000000 (Inr db1) ''test+tag@gmail.com'' (Num 3650)
     (Num 10) =
   Inr [\<lparr>ConversationMessage_id = 1, ConversationMessage_text = ''hello'',
         ConversationMessage_date = ''date'', ConversationMessage_isFromMe = False,
         ConversationMessage_hasAttachments = False,
         ConversationMessage_sender = ''+15551234567''\<rparr>,
        \<lparr>ConversationMessage_id = 3, ConversationMessage_text = ''Hello again'',
         ConversationMessage_date = ''date'', ConversationMessage_isFromMe = False,
         ConversationMessage_hasAttachments = False,
         ConversationMessage_sender = ''+15551234567''\<rparr>,
        \<lparr>ConversationMessage_id = 2, ConversationMessage_text = ''(attachment or empty)'',
         ConversationMessage_date = ''date'', ConversationMessage_isFromMe = True,
         ConversationMessage_hasAttachments = True,
         ConversationMessage_sender = ''You''\<rparr>]"
  by code_simp+

lemma cleaned_idem:
  "set t \<subseteq> {c. is_digit c \<or> c = CHR ''+''} \<Longrightarrow> filter (\<lambda>c. is_digit c \<or> c = CHR ''+'') t = t"
  by (induction t) auto

lemma formatPhoneNumber_clean:
  assumes "set t \<subseteq> {c. is_digit c \<or> c = CHR ''+''}" "startsWith t ''+''" "length t \<noteq> 10"
  shows "formatPhoneNumber t = t"
  using assms by (auto simp add: formatPhoneNumber_def Let_def cleaned_idem startsWith_def)

text \<open>
  C10. \<open>formatPhoneNumber\<close> is idempotent: applying it to its own result changes
  nothing.
\<close>

theorem formatPhoneNumber_idempotent:
  "formatPhoneNumber (formatPhoneNumber s) = formatPhoneNumber s"
proof -
  let ?c = "filter (\<lambda>c. is_digit c \<or> c = CHR ''+'') s"
  have sub: "set ?c \<subseteq> {c. is_digit c \<or> c = CHR ''+''}" by auto
  consider (a) "length ?c = 11 \<and> startsWith ?c ''1''"
    | (b) "\<not> (length ?c = 11 \<and> startsWith ?c ''1'')" "length ?c = 10"
    | (c) "\<not> (length ?c = 11 \<and> startsWith ?c ''1'')" "length ?c \<noteq> 10" "startsWith ?c ''+''"
    | (d) "\<not> (length ?c = 11 \<and> startsWith ?c ''1'')" "length ?c \<noteq> 10" "\<not> startsWith ?c ''+''"
    by blast
  then show ?thesis
  proof cases
    case a
    then have r: "formatPhoneNumber s = ''+'' @ ?c" by (simp add: formatPhoneNumber_def Let_def)
    have "formatPhoneNumber (''+'' @ ?c) = ''+'' @ ?c"
      using a sub by (intro formatPhoneNumber_clean) (auto simp: startsWith_def)
    with r show ?thesis by simp
  next
    case b
    then have r: "formatPhoneNumber s = ''+1'' @ ?c" by (simp add: formatPhoneNumber_def Let_def)
    have "formatPhoneNumber (''+1'' @ ?c) = ''+1'' @ ?c"
      using b sub by (intro formatPhoneNumber_clean) (auto simp: startsWith_def is_digit_def)
    with r show ?thesis by simp
  next
    case c
    then have r: "formatPhoneNumber s = ?c" by (simp add: formatPhoneNumber_def Let_def)
    have "formatPhoneNumber ?c = ?c"
      using c sub by (intro formatPhoneNumber_clean)
    with r show ?thesis by simp
  next
    case d
    then have "formatPhoneNumber s = s" by (auto simp add: formatPhoneNumber_def Let_def)
    then show ?thesis by simp
  qed
qed

section \<open>Access diagnostics\<close>

text \<open>
  C7. \<open>checkDatabaseAccess\<close> always returns a result (every throw is caught). If the
  file does not exist, the result is not accessible, says that the database was not
  found and asks whether the application has been used, and nothing else was called. If
  the read-permission check fails, or that passes and opening the connection fails, or
  both pass and closing it fails, the result is not accessible and its message names
  the permission grant followed by the text of the underlying error (the message of an
  \<open>Error\<close>, a thrown string itself, the string form of any other value), and no later
  step was called. The result is accessible only if the file exists and both the
  permission check and the open succeeded.
\<close>

theorem checkDatabaseAccess_steps:
  "(\<not> file_exists env \<longrightarrow>
      checkDatabaseAccess path env =
        (\<lparr>accessible = False,
          error = Some (''Messages database not found at '' @ path
            @ ''. Make sure Messages app has been used.'')\<rparr>, [ExistsSync]))
   \<and> (file_exists env \<and> access_outcome env = Some e \<longrightarrow>
      checkDatabaseAccess path env =
        (\<lparr>accessible = False,
          error = Some (''Cannot access Messages database. Grant Full Disk Access to your ''
            @ ''terminal in System Preferences '' @ arrow @ '' Privacy & Security '' @ arrow
            @ '' Full Disk Access. Error: ''
            @ (case e of ErrorObject m \<Rightarrow> m | StringValue s \<Rightarrow> s | OtherValue t \<Rightarrow> t))\<rparr>,
         [ExistsSync, AccessSync]))
   \<and> (file_exists env \<and> access_outcome env = None \<and> open_outcome env = Some e \<longrightarrow>
      checkDatabaseAccess path env =
        (\<lparr>accessible = False,
          error = Some (''Cannot access Messages database. Grant Full Disk Access to your ''
            @ ''terminal in System Preferences '' @ arrow @ '' Privacy & Security '' @ arrow
            @ '' Full Disk Access. Error: ''
            @ (case e of ErrorObject m \<Rightarrow> m | StringValue s \<Rightarrow> s | OtherValue t \<Rightarrow> t))\<rparr>,
         [ExistsSync, AccessSync, OpenDatabase]))
   \<and> (file_exists env \<and> access_outcome env = None \<and> open_outcome env = None
        \<and> close_outcome env = Some e \<longrightarrow>
      checkDatabaseAccess path env =
        (\<lparr>accessible = False,
          error = Some (''Cannot access Messages database. Grant Full Disk Access to your ''
            @ ''terminal in System Preferences '' @ arrow @ '' Privacy & Security '' @ arrow
            @ '' Full Disk Access. Error: ''
            @ (case e of ErrorObject m \<Rightarrow> m | StringValue s \<Rightarrow> s | OtherValue t \<Rightarrow> t))\<rparr>,
         [ExistsSync, AccessSync, OpenDatabase, CloseDatabase]))
   \<and> (accessible (fst (checkDatabaseAccess path env)) \<longrightarrow>
        file_exists env \<and> access_outcome env = None \<and> open_outcome env = None
        \<and> snd (checkDatabaseAccess path env) =
            [ExistsSync, AccessSync, OpenDatabase, CloseDatabase])
   \<and> (file_exists env \<and> access_outcome env = None \<and> open_outcome env = None
        \<and> close_outcome env = None \<longrightarrow>
      checkDatabaseAccess path env =
        (\<lparr>accessible = True, error = None\<rparr>,
         [ExistsSync, AccessSync, OpenDatabase, CloseDatabase]))"
  by (cases e) (auto simp add: checkDatabaseAccess_def access_failure_def split: option.splits)

theorem checkDatabaseAccess_steps_witness:
  "checkDatabaseAccess ''/Users/a/Library/Messages/chat.db''
      \<lparr>file_exists = False, access_outcome = None, open_outcome = None, close_outcome = None\<rparr>
    = (\<lparr>accessible = False,
        error = Some (''Messages database not found at /Users/a/Library/Messages/chat.db''
          @ ''. Make sure Messages app has been used.'')\<rparr>, [ExistsSync])
   \<and> checkDatabaseAccess ''/Users/a/Library/Messages/chat.db''
      \<lparr>file_exists = True, access_outcome = Some (ErrorObject ''EPERM: operation not permitted''),
        open_outcome = None, close_outcome = None\<rparr>
    = (\<lparr>accessible = False,
        error = Some (''Cannot access Messages database. Grant Full Disk Access to your ''
          @ ''terminal in System Preferences '' @ arrow @ '' Privacy & Security '' @ arrow
          @ '' Full Disk Access. Error: EPERM: operation not permitted'')\<rparr>,
       [ExistsSync, AccessSync])
   \<and> checkDatabaseAccess ''/Users/a/Library/Messages/chat.db''
      \<lparr>file_exists = True, access_outcome = None,
        open_outcome = Some (StringValue ''unable to open database file''),
        close_outcome = None\<rparr>
    = (\<lparr>accessible = False,
        error = Some (''Cannot access Messages database. Grant Full Disk Access to your ''
          @ ''terminal in System Preferences '' @ arrow @ '' Privacy & Security '' @ arrow
          @ '' Full Disk Access. Error: unable to open database file'')\<rparr>,
       [ExistsSync, AccessSync, OpenDatabase])
   \<and> checkDatabaseAccess ''/Users/a/Library/Messages/chat.db''
      \<lparr>file_exists = True, access_outcome = None, open_outcome = None,
        close_outcome = Some (OtherValue ''[object Object]'')\<rparr>
    = (\<lparr>accessible = False,
        error = Some (''Cannot access Messages database. Grant Full Disk Access to your ''
          @ ''terminal in System Preferences '' @ arrow @ '' Privacy & Security '' @ arrow
          @ '' Full Disk Access. Error: [object Object]'')\<rparr>,
       [ExistsSync, AccessSync, OpenDatabase, CloseDatabase])
   \<and> checkDatabaseAccess ''/Users/a/Library/Messages/chat.db''
      \<lparr>file_exists = True, access_outcome = None, open_outcome = None, close_outcome = None\<rparr>
    = (\<lparr>accessible = True, error = None\<rparr>,
       [ExistsSync, AccessSync, OpenDatabase, CloseDatabase])"
  using checkDatabaseAccess_steps [of
      "\<lparr>file_exists = False, access_outcome = None, open_outcome = None, close_outcome = None\<rparr>"
      "''/Users/a/Library/Messages/chat.db''"]
    checkDatabaseAccess_steps [of
      "\<lparr>file_exists = True, access_outcome = Some (ErrorObject ''EPERM: operation not permitted''),
        open_outcome = None, close_outcome = None\<rparr>" "''/Users/a/Library/Messages/chat.db''"
      "ErrorObject ''EPERM: operation not permitted''"]
    checkDatabaseAccess_steps [of
      "\<lparr>file_exists = True, access_outcome = None,
        open_outcome = Some (StringValue ''unable to open database file''),
        close_outcome = None\<rparr>" "''/Users/a/Library/Messages/chat.db''"
      "StringValue ''unable to open database file''"]
    checkDatabaseAccess_steps [of
      "\<lparr>file_exists = True, access_outcome = None, open_outcome = None,
        close_outcome = Some (OtherValue ''[object Object]'')\<rparr>"
      "''/Users/a/Library/Messages/chat.db''" "OtherValue ''[object Object]''"]
    checkDatabaseAccess_steps [of
      "\<lparr>file_exists = True, access_outcome = None, open_outcome = None, close_outcome = None\<rparr>"
      "''/Users/a/Library/Messages/chat.db''"]
  by simp


section \<open>Rows returned by the statements\<close>

lemma set_insert_desc: "set (insert_desc key x ys) = insert x (set ys)"
  by (induction ys) auto

lemma set_fold_insert_desc: "set (fold (insert_desc key) rows acc) = set rows \<union> set acc"
  by (induction rows arbitrary: acc) (auto simp add: set_insert_desc)

lemma set_order_by_desc: "set (order_by_desc key rows) = set rows"
  by (simp add: order_by_desc_def set_fold_insert_desc)

lemma set_order_by_asc: "set (order_by_asc key rows) = set rows"
  by (simp add: order_by_asc_def)

lemma set_limit_rows: "set (limit_rows bound rows) \<subseteq> set rows"
  by (cases bound) (auto dest: in_set_takeD)

lemma select_rows_condition:
  assumes "select_rows rows condition order n = Inr out" "\<And>xs. set (order xs) = set xs"
    "r \<in> set out"
  shows "condition r"
proof -
  from assms(1) obtain bound where "out = limit_rows bound (order (filter condition rows))"
    by (auto simp add: select_rows_def split: sum.splits)
  with assms(3) set_limit_rows [of bound "order (filter condition rows)"]
  have "r \<in> set (order (filter condition rows))" by blast
  then show ?thesis by (simp add: assms(2))
qed

lemma conversation_rows_have_handle:
  assumes "run_conversation db ps = Inr rows" "r \<in> set rows"
  shows "RawMessageRow_handle_id r \<noteq> None"
proof -
  from assms(1) obtain t p1 e p2 n where
    "select_rows (message_handle_rows db)
       (\<lambda>r. sql_gt (RawMessageRow_date r) t
             \<and> like_or_equal_or_like (RawMessageRow_handle_id r) p1 e p2)
       (order_by_asc RawMessageRow_date) n = Inr rows"
    by (cases "(db, ps)" rule: run_conversation.cases) auto
  from select_rows_condition [OF this set_order_by_asc assms(2)]
  have "like_or_equal_or_like (RawMessageRow_handle_id r) p1 e p2" by simp
  then show ?thesis by (cases "RawMessageRow_handle_id r") auto
qed

lemma search_rows_have_text:
  assumes "run_search db ps = Inr rows" "r \<in> set rows"
  shows "RawMessageRow_text r \<noteq> None"
proof -
  from assms(1) obtain t p n where
    "select_rows (message_handle_chat_rows db)
       (\<lambda>r. sql_gt (RawMessageRow_date r) t \<and> column_like (RawMessageRow_text r) p)
       (order_by_desc RawMessageRow_date) n = Inr rows"
    by (cases "(db, ps)" rule: run_search.cases) auto
  from select_rows_condition [OF this set_order_by_desc assms(2)]
  have "column_like (RawMessageRow_text r) p" by simp
  then show ?thesis by (cases "RawMessageRow_text r") auto
qed

section \<open>Row mapping\<close>





section \<open>Free-text filters\<close>

lemma sql_like_any: "sql_like ''%'' v"
  by (induction v) auto

lemma sql_like_append:
  "sql_like (p @ q) v \<longleftrightarrow> (\<exists>a b. v = a @ b \<and> sql_like p a \<and> sql_like q b)"
proof (induction p v rule: sql_like.induct)
  case (1 v)
  then show ?case by simp
next
  case (2 p ps)
  then show ?case by auto
next
  case (3 p ps c cs)
  show ?case
  proof (cases "p = CHR ''%''")
    case True
    have "sql_like ((p # ps) @ q) (c # cs) \<longleftrightarrow>
          sql_like (ps @ q) (c # cs) \<or> sql_like ((p # ps) @ q) cs"
      using True by simp
    also have "\<dots> \<longleftrightarrow> (\<exists>a b. c # cs = a @ b \<and> sql_like ps a \<and> sql_like q b)
        \<or> (\<exists>a b. cs = a @ b \<and> sql_like (p # ps) a \<and> sql_like q b)"
      using 3 True by simp
    also have "\<dots> \<longleftrightarrow> (\<exists>a b. c # cs = a @ b \<and> sql_like (p # ps) a \<and> sql_like q b)"
      (is "?L \<longleftrightarrow> ?R")
    proof
      assume ?L
      then show ?R
      proof
        assume "\<exists>a b. c # cs = a @ b \<and> sql_like ps a \<and> sql_like q b"
        then obtain a b where ab: "c # cs = a @ b" "sql_like ps a" "sql_like q b" by blast
        have "sql_like (p # ps) a" using True ab(2) by (cases a) auto
        with ab show ?R by blast
      next
        assume "\<exists>a b. cs = a @ b \<and> sql_like (p # ps) a \<and> sql_like q b"
        then obtain a b where ab: "cs = a @ b" "sql_like (p # ps) a" "sql_like q b" by blast
        have "sql_like (p # ps) (c # a)" using True ab(2) by simp
        moreover have "c # cs = (c # a) @ b" using ab(1) by simp
        ultimately show ?R using ab(3) by blast
      qed
    next
      assume ?R
      then obtain a b where ab: "c # cs = a @ b" "sql_like (p # ps) a" "sql_like q b" by blast
      show ?L
      proof (cases a)
        case Nil
        with ab True have "sql_like ps []" "c # cs = [] @ b" by auto
        with ab(3) show ?thesis by blast
      next
        case (Cons x a')
        with ab(1) have xc: "x = c" "cs = a' @ b" by auto
        from ab(2) Cons True have "sql_like ps (c # a') \<or> sql_like (p # ps) a'"
          using xc by simp
        then show ?thesis
        proof
          assume "sql_like ps (c # a')"
          moreover have "c # cs = (c # a') @ b" using xc by simp
          ultimately show ?thesis using ab(3) by blast
        next
          assume "sql_like (p # ps) a'"
          with xc ab(3) show ?thesis by blast
        qed
      qed
    qed
    finally show ?thesis .
  next
    case False
    have "sql_like ((p # ps) @ q) (c # cs) \<longleftrightarrow>
          (p = CHR ''_'' \<or> like_fold p = like_fold c) \<and> sql_like (ps @ q) cs"
      using False by simp
    also have "\<dots> \<longleftrightarrow> (p = CHR ''_'' \<or> like_fold p = like_fold c)
        \<and> (\<exists>a b. cs = a @ b \<and> sql_like ps a \<and> sql_like q b)"
      using 3 False by simp
    also have "\<dots> \<longleftrightarrow> (\<exists>a b. c # cs = a @ b \<and> sql_like (p # ps) a \<and> sql_like q b)"
      (is "?L \<longleftrightarrow> ?R")
    proof
      assume l: ?L
      then obtain a b where ab: "cs = a @ b" "sql_like ps a" "sql_like q b" by blast
      have "sql_like (p # ps) (c # a)" using False l ab(2) by simp
      moreover have "c # cs = (c # a) @ b" using ab(1) by simp
      ultimately show ?R using ab(3) by blast
    next
      assume ?R
      then obtain a b where ab: "c # cs = a @ b" "sql_like (p # ps) a" "sql_like q b" by blast
      from ab(2) False obtain a' where a': "a = c # a'"
        using ab(1) by (cases a) auto
      with ab(1) have "cs = a' @ b" by simp
      moreover from ab(2) a' False
      have "(p = CHR ''_'' \<or> like_fold p = like_fold c) \<and> sql_like ps a'" by simp
      ultimately show ?L using ab(3) by blast
    qed
    finally show ?thesis .
  qed
qed


lemma sql_like_contains:
  "sql_like (''%'' @ s @ ''%'') v \<longleftrightarrow> (\<exists>a b c. v = a @ b @ c \<and> sql_like s b)"
proof
  assume "sql_like (''%'' @ s @ ''%'') v"
  then obtain a r where ar: "v = a @ r" "sql_like (s @ ''%'') r"
    unfolding sql_like_append [of "''%''"] by blast
  from ar(2) obtain b c where bc: "r = b @ c" "sql_like s b"
    unfolding sql_like_append [of s] by blast
  from ar(1) bc show "\<exists>a b c. v = a @ b @ c \<and> sql_like s b" by blast
next
  assume "\<exists>a b c. v = a @ b @ c \<and> sql_like s b"
  then obtain a b c where abc: "v = a @ b @ c" "sql_like s b" by blast
  have "sql_like (s @ ''%'') (b @ c)"
    unfolding sql_like_append [of s] using abc(2) sql_like_any [of c] by blast
  then show "sql_like (''%'' @ s @ ''%'') v"
    unfolding sql_like_append [of "''%''"] using abc(1) sql_like_any [of a] by blast
qed

lemma length_sanitize: "length s \<le> length (sanitizeForSqlLike s)"
  by (induction s) auto

lemma sanitize_unchanged:
  "sanitizeForSqlLike s = s \<longleftrightarrow> CHR ''%'' \<notin> set s \<and> CHR ''_'' \<notin> set s"
proof (induction s)
  case Nil
  then show ?case by simp
next
  case (Cons c s)
  have "CHR 0x5C # c # sanitizeForSqlLike s \<noteq> c # s"
  proof
    assume "CHR 0x5C # c # sanitizeForSqlLike s = c # s"
    then have "length (CHR 0x5C # c # sanitizeForSqlLike s) = length (c # s)"
      by (rule arg_cong)
    with length_sanitize [of s] show False by simp
  qed
  with Cons show ?case by auto
qed

text \<open>
  C8. For every contact or search string \<open>s\<close>, the statement text is a constant that
  does not depend on \<open>s\<close>, and \<open>s\<close> reaches the engine only through the bound
  values: the patterns are \<open>%\<close>, \<open>s\<close>, \<open>%\<close> (and the same around the normalised
  contact). Nothing is escaped: the engine matches such a pattern against a value exactly
  when \<open>s\<close>, read as a pattern with its own \<open>%\<close> and \<open>_\<close> as wild cards, matches some
  part of the value; and the pattern differs from the one \<open>sanitizeForSqlLike\<close> would
  give as soon as \<open>s\<close> contains \<open>%\<close> or \<open>_\<close>.
\<close>

theorem free_text_parameters:
  "getRecentMessages_statement now hours (Some (x # xs)) limit =
     (getRecentMessages_select @ contact_clause @ order_desc_limit,
      [PNumber (hoursAgoToCocoaTimestamp now hours), PString (''%'' @ (x # xs) @ ''%''),
       PString (formatPhoneNumber (x # xs)),
       PString (''%'' @ formatPhoneNumber (x # xs) @ ''%''), PNumber limit])
   \<and> getConversation_statement now s days limit =
     (getConversation_select,
      [PNumber (daysAgoToCocoaTimestamp now days), PString (''%'' @ s @ ''%''),
       PString (formatPhoneNumber s), PString (''%'' @ formatPhoneNumber s @ ''%''),
       PNumber limit])
   \<and> searchMessages_statement now s days limit =
     (searchMessages_select,
      [PNumber (daysAgoToCocoaTimestamp now days), PString (''%'' @ s @ ''%''), PNumber limit])
   \<and> (sql_like (''%'' @ s @ ''%'') v \<longleftrightarrow> (\<exists>a b c. v = a @ b @ c \<and> sql_like s b))
   \<and> (''%'' @ sanitizeForSqlLike s @ ''%'' = ''%'' @ s @ ''%''
        \<longleftrightarrow> CHR ''%'' \<notin> set s \<and> CHR ''_'' \<notin> set s)"
proof (intro conjI)
  show "getRecentMessages_statement now hours (Some (x # xs)) limit =
     (getRecentMessages_select @ contact_clause @ order_desc_limit,
      [PNumber (hoursAgoToCocoaTimestamp now hours), PString (''%'' @ (x # xs) @ ''%''),
       PString (formatPhoneNumber (x # xs)),
       PString (''%'' @ formatPhoneNumber (x # xs) @ ''%''), PNumber limit])"
    by (simp add: getRecentMessages_statement_def contact_clause_def order_desc_limit_def Let_def)
  show "getConversation_statement now s days limit =
     (getConversation_select,
      [PNumber (daysAgoToCocoaTimestamp now days), PString (''%'' @ s @ ''%''),
       PString (formatPhoneNumber s), PString (''%'' @ formatPhoneNumber s @ ''%''),
       PNumber limit])"
    by (simp add: getConversation_statement_def Let_def)
  show "searchMessages_statement now s days limit =
     (searchMessages_select,
      [PNumber (daysAgoToCocoaTimestamp now days), PString (''%'' @ s @ ''%''), PNumber limit])"
    by (simp add: searchMessages_statement_def Let_def)
  show "sql_like (''%'' @ s @ ''%'') v \<longleftrightarrow> (\<exists>a b c. v = a @ b @ c \<and> sql_like s b)"
    by (rule sql_like_contains)
  show "''%'' @ sanitizeForSqlLike s @ ''%'' = ''%'' @ s @ ''%''
        \<longleftrightarrow> CHR ''%'' \<notin> set s \<and> CHR ''_'' \<notin> set s"
    using sanitize_unchanged [of s] by simp
qed

lemma daysAgo_30:
  "daysAgoToCocoaTimestamp 1730000000000 (Num 30) = Num 749100800000000000"
  by code_simp

theorem free_text_parameters_witness:
  "snd (searchMessages_statement 1730000000000 ''a_c'' (Num 30) (Num 50)) =
     [PNumber (Num 749100800000000000), PString ''%a_c%'', PNumber (Num 50)]
   \<and> sql_like ''%a_c%'' ''xabcx''
   \<and> ''%'' @ sanitizeForSqlLike ''a_c'' @ ''%'' \<noteq> ''%a_c%''"
proof -
  have "''xabcx'' = ''x'' @ ''abc'' @ ''x'' \<and> sql_like ''a_c'' ''abc''"
    by (simp add: like_fold_def)
  then have "\<exists>a b c. ''xabcx'' = a @ b @ c \<and> sql_like ''a_c'' b" by blast
  then show ?thesis
    using free_text_parameters [of 1730000000000 "Num 30" "CHR ''a''" "''_c''" "Num 50"
        "''a_c''" "Num 30" "''xabcx''"]
    by (simp add: daysAgo_30)
qed

section \<open>Order and size of the results\<close>

lemma sql_limit_nat: "sql_limit (Num (of_nat n)) = Inr (Some n)"
proof -
  have "(of_nat n :: rat) = of_int (int n)" by simp
  then show ?thesis by (simp only: sql_limit.simps floor_of_int) simp
qed

lemma select_rows_nat:
  "select_rows rows condition order (Num (of_nat n)) =
     Inr (take n (order (filter condition rows)))"
  by (simp add: select_rows_def sql_limit_nat)

lemma order_by_asc_sorted:
  "sorted_wrt (\<lambda>a b. key a \<le> key b) (order_by_asc key rows)"
  using sorted_sort_key [of key rows]
  by (simp add: order_by_asc_def sorted_wrt_map)

lemma insert_desc_sorted:
  "sorted_wrt (\<lambda>a b. key b \<le> key a) ys \<Longrightarrow>
   sorted_wrt (\<lambda>a b. key b \<le> key a) (insert_desc key x ys)"
  by (induction ys) (auto simp add: set_insert_desc)

lemma fold_insert_desc_sorted:
  "sorted_wrt (\<lambda>a b. key b \<le> key a) acc \<Longrightarrow>
   sorted_wrt (\<lambda>a b. key b \<le> key a) (fold (insert_desc key) rows acc)"
  by (induction rows arbitrary: acc) (simp_all add: insert_desc_sorted)

lemma order_by_desc_sorted:
  "sorted_wrt (\<lambda>a b. key b \<le> key a) (order_by_desc key rows)"
  by (simp add: order_by_desc_def fold_insert_desc_sorted)

text \<open>Rows with equal keys stay in the order of the scan, in both directions.\<close>

lemma order_by_stable:
  "map fst (order_by_desc snd [(1::nat, 5::nat), (2, 7), (3, 5), (4, 7)]) = [2, 4, 1, 3]"
  "map fst (order_by_asc snd [(1::nat, 5::nat), (2, 7), (3, 5), (4, 7)]) = [1, 3, 2, 4]"
  by (simp_all add: order_by_desc_def order_by_asc_def)

lemma sorted_wrt_take_rows: "sorted_wrt R rows \<Longrightarrow> sorted_wrt R (take n rows)"
  by (rule sorted_wrt_take)

lemma all_messages_recent:
  "all_messages db (getRecentMessages_select @ order_desc_limit) ps = run_recent db ps"
  by (simp add: all_messages_def)

lemma all_messages_recent_contact:
  "all_messages db (getRecentMessages_select @ contact_clause @ order_desc_limit) ps =
     run_recent_contact db ps"
  by (simp add: all_messages_def contact_clause_def order_desc_limit_def)

lemma all_messages_conversation:
  "all_messages db getConversation_select ps = run_conversation db ps"
  by (simp add: all_messages_def getConversation_select_def getRecentMessages_select_def)

lemma all_messages_search:
  "all_messages db searchMessages_select ps = run_search db ps"
  by (simp add: all_messages_def getConversation_select_def getRecentMessages_select_def
      searchMessages_select_def contact_clause_def order_desc_limit_def)

lemma all_chats_all:
  "all_chats db (listChats_select @ order_last_limit) ps = run_chats True db ps"
  by (simp add: all_chats_def)

lemma all_chats_no_groups:
  "all_chats db (listChats_select @ no_group_chats @ order_last_limit) ps =
     run_chats False db ps"
  by (simp add: all_chats_def no_group_chats_def order_last_limit_def)

lemma getConversation_run:
  "(case getConversation_statement now contact days (Num (of_nat n)) of
      (query, params) \<Rightarrow> all_messages db query params) =
   Inr (take n (order_by_asc RawMessageRow_date
      (filter (\<lambda>r. sql_gt (RawMessageRow_date r) (daysAgoToCocoaTimestamp now days)
                 \<and> like_or_equal_or_like (RawMessageRow_handle_id r) (''%'' @ contact @ ''%'')
                      (formatPhoneNumber contact) (''%'' @ formatPhoneNumber contact @ ''%''))
         (message_handle_rows db))))"
  by (simp add: getConversation_statement_def Let_def all_messages_conversation select_rows_nat)

lemma searchMessages_run:
  "(case searchMessages_statement now query days (Num (of_nat n)) of
      (text, params) \<Rightarrow> all_messages db text params) =
   Inr (take n (order_by_desc RawMessageRow_date
      (filter (\<lambda>r. sql_gt (RawMessageRow_date r) (daysAgoToCocoaTimestamp now days)
                 \<and> column_like (RawMessageRow_text r) (''%'' @ query @ ''%''))
         (message_handle_chat_rows db))))"
  by (simp add: searchMessages_statement_def Let_def all_messages_search select_rows_nat)

lemma getRecentMessages_run:
  "(case getRecentMessages_statement now hours contact (Num (of_nat n)) of
      (query, params) \<Rightarrow> all_messages db query params) =
   Inr (take n (order_by_desc RawMessageRow_date
      (filter (\<lambda>r. sql_gt (RawMessageRow_date r) (hoursAgoToCocoaTimestamp now hours)
                 \<and> (case contact of None \<Rightarrow> True
                     | Some c \<Rightarrow> c = [] \<or>
                         like_or_equal_or_like (RawMessageRow_handle_id r) (''%'' @ c @ ''%'')
                           (formatPhoneNumber c) (''%'' @ formatPhoneNumber c @ ''%'')))
         (message_handle_chat_rows db))))"
proof (cases "contact = None \<or> contact = Some []")
  case True
  then have "getRecentMessages_statement now hours contact (Num (of_nat n)) =
      (getRecentMessages_select @ order_desc_limit,
       [PNumber (hoursAgoToCocoaTimestamp now hours), PNumber (Num (of_nat n))])"
    by (auto simp add: getRecentMessages_statement_def Let_def order_desc_limit_def)
  with True show ?thesis
    by (auto simp add: all_messages_recent select_rows_nat)
next
  case False
  then obtain c where c: "contact = Some c" "c \<noteq> []" by (cases contact) auto
  then have "getRecentMessages_statement now hours contact (Num (of_nat n)) =
      (getRecentMessages_select @ contact_clause @ order_desc_limit,
       [PNumber (hoursAgoToCocoaTimestamp now hours), PString (''%'' @ c @ ''%''),
        PString (formatPhoneNumber c), PString (''%'' @ formatPhoneNumber c @ ''%''),
        PNumber (Num (of_nat n))])"
    by (simp add: getRecentMessages_statement_def Let_def order_desc_limit_def
        contact_clause_def)
  with c show ?thesis
    by (simp add: all_messages_recent_contact select_rows_nat)
qed

lemma listChats_run:
  "(case listChats_statement (Num (of_nat n)) includeGroupChats of
      (query, params) \<Rightarrow> all_chats db query params) =
   Inr (take n (order_by_desc RawChatRow_last_message_date
      (filter (\<lambda>r. includeGroupChats \<or> RawChatRow_style r \<noteq> 43) (chat_rows db))))"
proof (cases includeGroupChats)
  case True
  then have "listChats_statement (Num (of_nat n)) includeGroupChats =
      (listChats_select @ order_last_limit, [PNumber (Num (of_nat n))])"
    by (simp add: listChats_statement_def Let_def order_last_limit_def)
  with True show ?thesis by (simp add: all_chats_all select_rows_nat)
next
  case False
  then have "listChats_statement (Num (of_nat n)) includeGroupChats =
      (listChats_select @ no_group_chats @ order_last_limit, [PNumber (Num (of_nat n))])"
    by (simp add: listChats_statement_def Let_def order_last_limit_def no_group_chats_def)
  with False show ?thesis by (simp add: all_chats_no_groups select_rows_nat)
qed

text \<open>
  The limit that reaches a query comes from \<open>normalizeLimit\<close> with a whole default and
  maximum: it is a whole number that is not negative (or \<open>NaN\<close>, when the value was).
\<close>

lemma normalizeLimit_whole:
  "(\<exists>k. normalizeLimit v (Num (of_nat d)) (Num (of_nat m)) = Num (of_nat k))
   \<or> normalizeLimit v (Num (of_nat d)) (Num (of_nat m)) = NaN"
proof (cases v)
  case Undefined
  then show ?thesis by (auto simp add: normalizeLimit_def)
next
  case Null
  then show ?thesis by (auto simp add: normalizeLimit_def)
next
  case (Given l)
  show ?thesis
  proof (cases l)
    case NaN
    with Given show ?thesis by (simp add: normalizeLimit_def)
  next
    case (Num x)
    show ?thesis
    proof (cases "x \<le> 0 \<or> of_nat m < x")
      case True
      with Given Num show ?thesis by (auto simp add: normalizeLimit_def)
    next
      case False
      then have "0 \<le> \<lfloor>x\<rfloor>" by simp
      then have "(of_int \<lfloor>x\<rfloor> :: rat) = of_nat (nat \<lfloor>x\<rfloor>)" by simp
      then have "\<exists>k. (of_int \<lfloor>x\<rfloor> :: rat) = of_nat k" by (rule exI)
      moreover have "normalizeLimit v (Num (of_nat d)) (Num (of_nat m)) = Num (of_int \<lfloor>x\<rfloor>)"
        using False Given Num by (simp add: normalizeLimit_def)
      ultimately show ?thesis by simp
    qed
  qed
qed


text \<open>
  C6. With a limit \<open>n\<close> (a whole number, not negative) every query succeeds on an open
  store, and its result is the image under the row mapping of the rows the statement
  returns; these rows are at most \<open>n\<close>, in ascending order of the native timestamp for
  \<open>getConversation\<close>, in descending order of it for \<open>getRecentMessages\<close> and
  \<open>searchMessages\<close>, and in descending order of the time of the last message (chats
  without messages last) for \<open>listChats\<close>.
\<close>

theorem query_results_ordered:
  "(\<exists>rows.
      (case getConversation_statement now contact days (Num (of_nat n)) of
         (query, params) \<Rightarrow> all_messages db query params) = Inr rows
      \<and> getConversation fmt now (Inr db) contact days (Num (of_nat n)) =
          Inr (map (getConversation_row fmt) rows)
      \<and> sorted_wrt (\<lambda>a b. RawMessageRow_date a \<le> RawMessageRow_date b) rows
      \<and> length rows \<le> n)
   \<and> (\<exists>rows.
      (case getRecentMessages_statement now hours optional_contact (Num (of_nat n)) of
         (query, params) \<Rightarrow> all_messages db query params) = Inr rows
      \<and> getRecentMessages fmt now (Inr db) hours optional_contact (Num (of_nat n)) =
          Inr (map (getRecentMessages_row fmt) rows)
      \<and> sorted_wrt (\<lambda>a b. RawMessageRow_date b \<le> RawMessageRow_date a) rows
      \<and> length rows \<le> n)
   \<and> (\<exists>rows.
      (case searchMessages_statement now query days (Num (of_nat n)) of
         (text, params) \<Rightarrow> all_messages db text params) = Inr rows
      \<and> searchMessages fmt now (Inr db) query days (Num (of_nat n)) =
          Inr (map (searchMessages_row fmt) rows)
      \<and> sorted_wrt (\<lambda>a b. RawMessageRow_date b \<le> RawMessageRow_date a) rows
      \<and> length rows \<le> n)
   \<and> (\<exists>rows.
      (case listChats_statement (Num (of_nat n)) includeGroupChats of
         (query, params) \<Rightarrow> all_chats db query params) = Inr rows
      \<and> listChats fmt (Inr db) (Num (of_nat n)) includeGroupChats =
          Inr (map (listChats_row fmt) rows)
      \<and> sorted_wrt (\<lambda>a b. RawChatRow_last_message_date b \<le> RawChatRow_last_message_date a)
           rows
      \<and> length rows \<le> n)"
proof (intro conjI)
  show "\<exists>rows.
      (case getConversation_statement now contact days (Num (of_nat n)) of
         (query, params) \<Rightarrow> all_messages db query params) = Inr rows
      \<and> getConversation fmt now (Inr db) contact days (Num (of_nat n)) =
          Inr (map (getConversation_row fmt) rows)
      \<and> sorted_wrt (\<lambda>a b. RawMessageRow_date a \<le> RawMessageRow_date b) rows
      \<and> length rows \<le> n"
    by (simp add: getConversation_def getConversation_run sorted_wrt_take_rows order_by_asc_sorted)
  show "\<exists>rows.
      (case getRecentMessages_statement now hours optional_contact (Num (of_nat n)) of
         (query, params) \<Rightarrow> all_messages db query params) = Inr rows
      \<and> getRecentMessages fmt now (Inr db) hours optional_contact (Num (of_nat n)) =
          Inr (map (getRecentMessages_row fmt) rows)
      \<and> sorted_wrt (\<lambda>a b. RawMessageRow_date b \<le> RawMessageRow_date a) rows
      \<and> length rows \<le> n"
    by (simp add: getRecentMessages_def getRecentMessages_run sorted_wrt_take_rows order_by_desc_sorted)
  show "\<exists>rows.
      (case searchMessages_statement now query days (Num (of_nat n)) of
         (text, params) \<Rightarrow> all_messages db text params) = Inr rows
      \<and> searchMessages fmt now (Inr db) query days (Num (of_nat n)) =
          Inr (map (searchMessages_row fmt) rows)
      \<and> sorted_wrt (\<lambda>a b. RawMessageRow_date b \<le> RawMessageRow_date a) rows
      \<and> length rows \<le> n"
    by (simp add: searchMessages_def searchMessages_run sorted_wrt_take_rows order_by_desc_sorted)
  show "\<exists>rows.
      (case listChats_statement (Num (of_nat n)) includeGroupChats of
         (query, params) \<Rightarrow> all_chats db query params) = Inr rows
      \<and> listChats fmt (Inr db) (Num (of_nat n)) includeGroupChats =
          Inr (map (listChats_row fmt) rows)
      \<and> sorted_wrt (\<lambda>a b. RawChatRow_last_message_date b \<le> RawChatRow_last_message_date a)
           rows
      \<and> length rows \<le> n"
    by (simp add: listChats_def listChats_run sorted_wrt_take_rows order_by_desc_sorted)
qed

theorem query_results_ordered_witness:
  "\<exists>rows.
      getConversation (\<lambda>d. ''date'') 1730000000000 (Inr db1) ''555-123-4567'' (Num 3650)
        (Num (of_nat 2)) = Inr (map (getConversation_row (\<lambda>d. ''date'')) rows)
      \<and> sorted_wrt (\<lambda>a b. RawMessageRow_date a \<le> RawMessageRow_date b) rows
      \<and> length rows \<le> 2"
  using query_results_ordered [where now = 1730000000000 and contact = "''555-123-4567''"
      and days = "Num 3650" and n = 2 and db = db1 and fmt = "\<lambda>d. ''date''"]
  by blast

text \<open>The queries on the small store.\<close>

lemma getConversation_example:
  "getConversation (\<lambda>d. ''date'') 1730000000000 (Inr db1) ''555-123-4567'' (Num 3650) (Num 2) =
   Inr [\<lparr>ConversationMessage_id = 1, ConversationMessage_text = ''hello'',
         ConversationMessage_date = ''date'', ConversationMessage_isFromMe = False,
         ConversationMessage_hasAttachments = False,
         ConversationMessage_sender = ''+15551234567''\<rparr>,
        \<lparr>ConversationMessage_id = 3, ConversationMessage_text = ''Hello again'',
         ConversationMessage_date = ''date'', ConversationMessage_isFromMe = False,
         ConversationMessage_hasAttachments = False,
         ConversationMessage_sender = ''+15551234567''\<rparr>]"
  by code_simp

lemma getRecentMessages_example:
  "map_sum id (map Message_id)
     (getRecentMessages (\<lambda>d. ''date'') 1730000000000 (Inr db1) (Num 87600) None (Num 2)) =
   Inr [2, 3]"
  by code_simp

lemma searchMessages_example:
  "map_sum id (map Message_id)
     (searchMessages (\<lambda>d. ''date'') 1730000000000 (Inr db1) ''HELLO'' (Num 3650) (Num 10)) =
   Inr [3, 1]"
  by code_simp

lemma listChats_example:
  "listChats (\<lambda>d. ''date'') (Inr db1) (Num 5) True =
   Inr [\<lparr>Chat_id = 1, Chat_identifier = ''+15551234567'', Chat_displayName = ''+15551234567'',
         Chat_service = ''iMessage'', Chat_isGroupChat = False, Chat_messageCount = 3,
         Chat_lastMessageDate = ''date'', Chat_lastMessage = ''(no messages)''\<rparr>]"
  by code_simp


end
